theory Spec2Isabelle
  imports Main "HOL-Library.Sublist"
begin

section \<open>Text\<close>

text \<open>
  Python strings are modelled as HOL strings: lists of 8-bit characters, read as the code
  points 0 to 255. The characters that the source names are ASCII.
\<close>

abbreviation LF :: char where "LF \<equiv> CHR 0x0A"
abbreviation TAB :: char where "TAB \<equiv> CHR 0x09"
abbreviation CR :: char where "CR \<equiv> CHR 0x0D"
abbreviation DQ :: char where "DQ \<equiv> CHR 0x22"
abbreviation SQ :: char where "SQ \<equiv> CHR 0x27"

text \<open>\<^verbatim>\<open>str.isspace\<close> on one character, for the code points below 256.\<close>

definition isspace :: "char \<Rightarrow> bool" where
  "isspace c = (of_char c \<in> set [9, 10, 11, 12, 13, 28, 29, 30, 31, 32, 133, 160 :: nat])"

text \<open>\<^verbatim>\<open>str.strip()\<close>: leading and trailing whitespace removed.\<close>

definition strip :: "string \<Rightarrow> string" where
  "strip s = rev (dropWhile isspace (rev (dropWhile isspace s)))"

text \<open>\<^verbatim>\<open>str.startswith(p)\<close>.\<close>

definition startswith :: "string \<Rightarrow> string \<Rightarrow> bool" where
  "startswith s p = prefix p s"

text \<open>\<^verbatim>\<open>str.endswith(p)\<close>.\<close>

definition endswith :: "string \<Rightarrow> string \<Rightarrow> bool" where
  "endswith s p = suffix p s"

text \<open>\<^verbatim>\<open>s.split(c)\<close> for a one-character separator: never empty, one more part than
  separators.\<close>

fun split_on :: "char \<Rightarrow> string \<Rightarrow> string list" where
  "split_on c [] = [[]]"
| "split_on c (x # xs) =
     (if x = c then [] # split_on c xs
      else (case split_on c xs of
              [] \<Rightarrow> [[x]]
            | w # ws \<Rightarrow> (x # w) # ws))"

text \<open>\<^verbatim>\<open>sep.join(parts)\<close>.\<close>

fun join :: "string \<Rightarrow> string list \<Rightarrow> string" where
  "join sep [] = []"
| "join sep [p] = p"
| "join sep (p # q # ps) = p @ sep @ join sep (q # ps)"

text \<open>\<^verbatim>\<open>s.find(c)\<close>, \<^verbatim>\<open>s.find(c, start)\<close> and \<^verbatim>\<open>s.rfind(c)\<close>; \<open>None\<close> stands for
  Python's -1.\<close>

fun find_chr :: "char \<Rightarrow> string \<Rightarrow> nat option" where
  "find_chr c [] = None"
| "find_chr c (x # xs) = (if x = c then Some 0 else map_option Suc (find_chr c xs))"

definition find_from :: "char \<Rightarrow> string \<Rightarrow> nat \<Rightarrow> nat option" where
  "find_from c s start = map_option (\<lambda>i. i + start) (find_chr c (drop start s))"

definition rfind_chr :: "char \<Rightarrow> string \<Rightarrow> nat option" where
  "rfind_chr c s = map_option (\<lambda>j. length s - 1 - j) (find_chr c (rev s))"

text \<open>\<^verbatim>\<open>str.lower()\<close> on an ASCII letter; other characters below 128 are unchanged.\<close>

definition lower :: "char \<Rightarrow> char" where
  "lower c = (let n = of_char c :: nat in if 65 \<le> n \<and> n \<le> 90 then char_of (n + 32) else c)"

text \<open>\<^verbatim>\<open>str(n)\<close> for an integer.\<close>

fun str_nat :: "nat \<Rightarrow> string" where
  "str_nat n = (if n < 10 then [char_of (48 + n)] else str_nat (n div 10) @ [char_of (48 + n mod 10)])"

definition str_int :: "int \<Rightarrow> string" where
  "str_int i = (if i < 0 then CHR ''-'' # str_nat (nat (- i)) else str_nat (nat i))"

text \<open>An instance of Python's \<^verbatim>\<open>Exception\<close>, with the text \<^verbatim>\<open>str(e)\<close> gives for it.\<close>

datatype exn = Exn (str_of: string)


section \<open>\<^verbatim>\<open>os.path.join\<close> (posixpath)\<close>

fun path_join :: "string \<Rightarrow> string list \<Rightarrow> string" where
  "path_join path [] = path"
| "path_join path (b # p) =
     path_join
       (if startswith b ''/'' then b
        else if path = [] \<or> endswith path ''/'' then path @ b
        else path @ ''/'' @ b) p"


section \<open>\<^verbatim>\<open>urllib.parse.urljoin\<close> (CPython 3.11)\<close>

definition uses_relative :: "string list" where
  "uses_relative = ['''', ''ftp'', ''http'', ''gopher'', ''nntp'', ''imap'',
     ''wais'', ''file'', ''https'', ''shttp'', ''mms'',
     ''prospero'', ''rtsp'', ''rtsps'', ''rtspu'', ''sftp'',
     ''svn'', ''svn+ssh'', ''ws'', ''wss'']"

definition uses_netloc :: "string list" where
  "uses_netloc = ['''', ''ftp'', ''http'', ''gopher'', ''nntp'', ''telnet'',
     ''imap'', ''wais'', ''file'', ''mms'', ''https'', ''shttp'',
     ''snews'', ''prospero'', ''rtsp'', ''rtsps'', ''rtspu'', ''rsync'',
     ''svn'', ''svn+ssh'', ''sftp'', ''nfs'', ''git'', ''git+ssh'',
     ''ws'', ''wss'']"

definition uses_params :: "string list" where
  "uses_params = ['''', ''ftp'', ''hdl'', ''prospero'', ''http'', ''imap'',
     ''https'', ''shttp'', ''rtsp'', ''rtsps'', ''rtspu'', ''sip'',
     ''sips'', ''mms'', ''sftp'', ''tel'']"

definition scheme_chars :: string where
  "scheme_chars = ''abcdefghijklmnopqrstuvwxyz'' @ ''ABCDEFGHIJKLMNOPQRSTUVWXYZ'' @
     ''0123456789'' @ ''+-.''"

text \<open>The characters of \<^verbatim>\<open>_WHATWG_C0_CONTROL_OR_SPACE\<close>: code points 0 to 32.\<close>

definition c0_or_space :: "char \<Rightarrow> bool" where
  "c0_or_space c = (of_char c \<le> (32 :: nat))"

text \<open>The replacement of each of \<^verbatim>\<open>_UNSAFE_URL_BYTES_TO_REMOVE\<close> by the empty string.\<close>

definition remove_unsafe :: "string \<Rightarrow> string" where
  "remove_unsafe s = filter (\<lambda>c. c \<noteq> LF) (filter (\<lambda>c. c \<noteq> CR) (filter (\<lambda>c. c \<noteq> TAB) s))"

text \<open>\<^verbatim>\<open>c.isascii() and c.isalpha()\<close>.\<close>

definition ascii_alpha :: "char \<Rightarrow> bool" where
  "ascii_alpha c = (let n = of_char c :: nat in (65 \<le> n \<and> n \<le> 90) \<or> (97 \<le> n \<and> n \<le> 122))"

text \<open>\<^verbatim>\<open>_splitparams\<close>.\<close>

definition splitparams :: "string \<Rightarrow> string \<times> string" where
  "splitparams url =
     (if CHR ''/'' \<in> set url then
        (case find_from CHR '';'' url (case rfind_chr CHR ''/'' url of Some r \<Rightarrow> r | None \<Rightarrow> 0) of
           None \<Rightarrow> (url, [])
         | Some i \<Rightarrow> (take i url, drop (i + 1) url))
      else
        (case find_chr CHR '';'' url of
           None \<Rightarrow> (butlast url, url)
         | Some i \<Rightarrow> (take i url, drop (i + 1) url)))"

text \<open>\<^verbatim>\<open>_splitnetloc\<close>: the authority ends at the earliest of the delimiters found from
  \<open>start\<close> on.\<close>

definition splitnetloc :: "string \<Rightarrow> nat \<Rightarrow> string \<times> string" where
  "splitnetloc url start =
     (let delim = foldl (\<lambda>d c. case find_from c url start of
                                  Some wdelim \<Rightarrow> min d wdelim
                                | None \<Rightarrow> d) (length url) ''/?#''
      in (take (delim - start) (drop start url), drop delim url))"

text \<open>\<^verbatim>\<open>netloc.partition('[')[2].partition(']')[0]\<close>.\<close>

definition bracketed_host :: "string \<Rightarrow> string" where
  "bracketed_host netloc =
     takeWhile (\<lambda>c. c \<noteq> CHR '']'') (drop 1 (dropWhile (\<lambda>c. c \<noteq> CHR ''['') netloc))"

text \<open>
  The check of a bracketed host (\<^verbatim>\<open>_check_bracketed_host\<close>, which asks the
  \<^verbatim>\<open>ipaddress\<close> module) is a parameter \<open>chk\<close> of the model: it gives the text of the
  \<^verbatim>\<open>ValueError\<close> for a host it rejects, and \<open>None\<close> for a host it accepts.
\<close>

text \<open>The scheme of \<^verbatim>\<open>urlsplit\<close>: the text before the first colon, when it is a letter
  followed by scheme characters; the default scheme otherwise.\<close>

definition split_scheme :: "string \<Rightarrow> string \<Rightarrow> string \<times> string" where
  "split_scheme scheme url =
     (case find_chr CHR '':'' url of
        None \<Rightarrow> (scheme, url)
      | Some i \<Rightarrow>
          if i > 0 \<and> ascii_alpha (hd url) \<and> list_all (\<lambda>c. c \<in> set scheme_chars) (take i url)
          then (map lower (take i url), drop (i + 1) url)
          else (scheme, url))"

text \<open>The authority of \<^verbatim>\<open>urlsplit\<close>, with the two checks of its brackets.\<close>

definition split_authority ::
  "(string \<Rightarrow> string option) \<Rightarrow> string \<Rightarrow> exn + (string \<times> string)" where
  "split_authority chk url =
     (if take 2 url = ''//'' then
        (case splitnetloc url 2 of (netloc, rest) \<Rightarrow>
           if (CHR ''['' \<in> set netloc \<and> CHR '']'' \<notin> set netloc) \<or>
              (CHR '']'' \<in> set netloc \<and> CHR ''['' \<notin> set netloc)
           then Inl (Exn ''Invalid IPv6 URL'')
           else if CHR ''['' \<in> set netloc \<and> CHR '']'' \<in> set netloc
           then (case chk (bracketed_host netloc) of
                   Some msg \<Rightarrow> Inl (Exn msg)
                 | None \<Rightarrow> Inr (netloc, rest))
           else Inr (netloc, rest))
      else Inr ([], url))"

text \<open>\<^verbatim>\<open>url.split(c, 1)\<close> for a text that contains \<open>c\<close>.\<close>

definition split_first :: "char \<Rightarrow> string \<Rightarrow> string \<times> string" where
  "split_first c url = (takeWhile (\<lambda>x. x \<noteq> c) url, drop 1 (dropWhile (\<lambda>x. x \<noteq> c) url))"

text \<open>
  \<^verbatim>\<open>urlsplit(url, scheme)\<close>: the 5-tuple (scheme, netloc, path, query, fragment), or the
  \<^verbatim>\<open>ValueError\<close> it raises. The function \<^verbatim>\<open>_checknetloc\<close> raises for no authority of
  code points below 256 and is left out.
\<close>

definition urlsplit ::
  "(string \<Rightarrow> string option) \<Rightarrow> string \<Rightarrow> string \<Rightarrow>
     exn + (string \<times> string \<times> string \<times> string \<times> string)" where
  "urlsplit chk url0 scheme0 =
     (case split_scheme
             (remove_unsafe (rev (dropWhile c0_or_space (rev (dropWhile c0_or_space scheme0)))))
             (remove_unsafe (dropWhile c0_or_space url0)) of
        (scheme, url1) \<Rightarrow>
     (case split_authority chk url1 of
        Inl e \<Rightarrow> Inl e
      | Inr (netloc, url2) \<Rightarrow>
     (case (if CHR ''#'' \<in> set url2 then split_first CHR ''#'' url2 else (url2, [])) of
        (url3, fragment) \<Rightarrow>
     (case (if CHR ''?'' \<in> set url3 then split_first CHR ''?'' url3 else (url3, [])) of
        (url4, query) \<Rightarrow> Inr (scheme, netloc, url4, query, fragment)))))"

text \<open>\<^verbatim>\<open>urlparse(url, scheme)\<close>: the 6-tuple (scheme, netloc, path, params, query,
  fragment).\<close>

definition urlparse ::
  "(string \<Rightarrow> string option) \<Rightarrow> string \<Rightarrow> string \<Rightarrow>
     exn + (string \<times> string \<times> string \<times> string \<times> string \<times> string)" where
  "urlparse chk url0 scheme0 =
     (case urlsplit chk url0 scheme0 of
        Inl e \<Rightarrow> Inl e
      | Inr (scheme, netloc, url, query, fragment) \<Rightarrow>
          (case (if scheme \<in> set uses_params \<and> CHR '';'' \<in> set url
                 then splitparams url else (url, [])) of
             (url1, params) \<Rightarrow> Inr (scheme, netloc, url1, params, query, fragment)))"

text \<open>\<^verbatim>\<open>urlunsplit\<close> and \<^verbatim>\<open>urlunparse\<close>.\<close>

definition urlunsplit :: "string \<times> string \<times> string \<times> string \<times> string \<Rightarrow> string" where
  "urlunsplit components =
     (case components of (scheme, netloc, url0, query, fragment) \<Rightarrow>
        let url = (if netloc \<noteq> [] \<or> (scheme \<noteq> [] \<and> scheme \<in> set uses_netloc) \<or> take 2 url0 = ''//''
                   then ''//'' @ netloc @
                          (if url0 \<noteq> [] \<and> take 1 url0 \<noteq> ''/'' then ''/'' @ url0 else url0)
                   else url0);
            url = (if scheme \<noteq> [] then scheme @ '':'' @ url else url);
            url = (if query \<noteq> [] then url @ ''?'' @ query else url);
            url = (if fragment \<noteq> [] then url @ ''#'' @ fragment else url)
        in url)"

definition urlunparse ::
  "string \<times> string \<times> string \<times> string \<times> string \<times> string \<Rightarrow> string" where
  "urlunparse components =
     (case components of (scheme, netloc, url, params, query, fragment) \<Rightarrow>
        urlunsplit (scheme, netloc,
                    (if params \<noteq> [] then url @ '';'' @ params else url), query, fragment))"

text \<open>The path part of \<^verbatim>\<open>urljoin\<close>: the segments of the base path and of the reference,
  with \<^verbatim>\<open>.\<close> and \<^verbatim>\<open>..\<close> resolved.\<close>

definition resolve_step :: "string list \<Rightarrow> string \<Rightarrow> string list" where
  "resolve_step resolved_path seg =
     (if seg = ''..'' then butlast resolved_path
      else if seg = ''.'' then resolved_path
      else resolved_path @ [seg])"

definition path_segments :: "string \<Rightarrow> string \<Rightarrow> string list" where
  "path_segments bpath path =
     (let base_parts0 = split_on CHR ''/'' bpath;
          base_parts = (if last base_parts0 \<noteq> [] then butlast base_parts0 else base_parts0)
      in if take 1 path = ''/'' then split_on CHR ''/'' path
         else (let segments = base_parts @ split_on CHR ''/'' path
               in if length segments \<ge> 2
                  then hd segments # filter (\<lambda>s. s \<noteq> []) (butlast (tl segments)) @ [last segments]
                  else segments))"

definition resolve_path :: "string \<Rightarrow> string \<Rightarrow> string" where
  "resolve_path bpath path =
     (let segments = path_segments bpath path;
          resolved_path0 = foldl resolve_step [] segments;
          resolved_path = (if last segments = ''.'' \<or> last segments = ''..''
                           then resolved_path0 @ [[]] else resolved_path0);
          joined = join ''/'' resolved_path
      in if joined = [] then ''/'' else joined)"

definition urljoin :: "(string \<Rightarrow> string option) \<Rightarrow> string \<Rightarrow> string \<Rightarrow> exn + string" where
  "urljoin chk base url =
     (if base = [] then Inr url
      else if url = [] then Inr base
      else
        (case urlparse chk base [] of
           Inl e \<Rightarrow> Inl e
         | Inr (bscheme, bnetloc, bpath, bparams, bquery, bfragment) \<Rightarrow>
        (case urlparse chk url bscheme of
           Inl e \<Rightarrow> Inl e
         | Inr (scheme, netloc, path, params, query, fragment) \<Rightarrow>
             if scheme \<noteq> bscheme \<or> scheme \<notin> set uses_relative then Inr url
             else if scheme \<in> set uses_netloc \<and> netloc \<noteq> []
             then Inr (urlunparse (scheme, netloc, path, params, query, fragment))
             else
               (let netloc = (if scheme \<in> set uses_netloc then bnetloc else netloc)
                in if path = [] \<and> params = []
                   then Inr (urlunparse (scheme, netloc, bpath, bparams,
                                         (if query = [] then bquery else query), fragment))
                   else Inr (urlunparse (scheme, netloc, resolve_path bpath path,
                                         params, query, fragment))))))"


section \<open>The rewriting of the manifest (step 4 of \<^verbatim>\<open>download_stream_manifest\<close>)\<close>

text \<open>One turn of the loop over \<^verbatim>\<open>lines\<close>: the line appended to
  \<^verbatim>\<open>processed_lines\<close>, or the exception \<^verbatim>\<open>urljoin\<close> raises.\<close>

definition process_line :: "(string \<Rightarrow> string option) \<Rightarrow> string \<Rightarrow> string \<Rightarrow> exn + string" where
  "process_line chk m3u8_url line =
     (let stripped_line = strip line
      in if stripped_line \<noteq> [] \<and> \<not> startswith stripped_line ''#'' then
           (if \<not> startswith stripped_line ''http://'' \<and> \<not> startswith stripped_line ''https://''
            then urljoin chk m3u8_url stripped_line
            else Inr stripped_line)
         else Inr stripped_line)"

fun processed_lines ::
  "(string \<Rightarrow> string option) \<Rightarrow> string \<Rightarrow> string list \<Rightarrow> exn + string list" where
  "processed_lines chk m3u8_url [] = Inr []"
| "processed_lines chk m3u8_url (line # lines) =
     (case process_line chk m3u8_url line of
        Inl e \<Rightarrow> Inl e
      | Inr l \<Rightarrow>
          (case processed_lines chk m3u8_url lines of
             Inl e \<Rightarrow> Inl e
           | Inr ls \<Rightarrow> Inr (l # ls)))"

text \<open>From \<^verbatim>\<open>m3u8_content.split('\n')\<close> to \<^verbatim>\<open>'\n'.join(processed_lines)\<close>.\<close>

definition processed_content :: "(string \<Rightarrow> string option) \<Rightarrow> string \<Rightarrow> string \<Rightarrow> exn + string" where
  "processed_content chk m3u8_url m3u8_content =
     (case processed_lines chk m3u8_url (split_on LF m3u8_content) of
        Inl e \<Rightarrow> Inl e
      | Inr ls \<Rightarrow> Inr (join [LF] ls))"


section \<open>The search for the manifest URL (step 2 of \<^verbatim>\<open>download_stream_manifest\<close>)\<close>

text \<open>
  The fragment of Python's regular expressions that \<^verbatim>\<open>m3u8_patterns\<close> uses, matched as
  \<^verbatim>\<open>re\<close> does: by backtracking, greedy quantifiers trying the longest repetition first.
  \<open>Lit c\<close> is a literal character, \<open>OptLit c\<close> is \<^verbatim>\<open>c?\<close>, \<open>StarNot cs sp\<close> is the
  greedy \<^verbatim>\<open>[^...]*\<close> over the characters that are not in \<open>cs\<close> and, when \<open>sp\<close> holds,
  not whitespace (\<^verbatim>\<open>\s\<close>); \<open>GroupOpen\<close> and \<open>GroupClose\<close> delimit group 1.
\<close>

datatype rx = Lit char | OptLit char | StarNot string bool | GroupOpen | GroupClose

text \<open>Comparison of a pattern character with a text character under \<^verbatim>\<open>re.IGNORECASE\<close>.\<close>

definition ci_eq :: "char \<Rightarrow> char \<Rightarrow> bool" where
  "ci_eq c x = (lower c = lower x)"

definition in_class :: "string \<Rightarrow> bool \<Rightarrow> char \<Rightarrow> bool" where
  "in_class cs sp x = (x \<notin> set cs \<and> \<not> (sp \<and> isspace x))"

text \<open>
  \<open>rmatch ps s st g\<close> matches the rest \<open>ps\<close> of a pattern at the rest \<open>s\<close> of the text;
  \<open>st\<close> is the text that was left when group 1 opened and \<open>g\<close> the text group 1 captured.
  \<open>rstar ps s k st g\<close> lets a star consume \<open>k\<close> characters, then \<open>k - 1\<close>, down to none.
\<close>

function rmatch :: "rx list \<Rightarrow> string \<Rightarrow> string \<Rightarrow> string \<Rightarrow> string option"
  and rstar :: "rx list \<Rightarrow> string \<Rightarrow> nat \<Rightarrow> string \<Rightarrow> string \<Rightarrow> string option" where
  "rmatch [] s st g = Some g"
| "rmatch (Lit c # ps) s st g =
     (case s of
        [] \<Rightarrow> None
      | x # xs \<Rightarrow> if ci_eq c x then rmatch ps xs st g else None)"
| "rmatch (OptLit c # ps) s st g =
     (case s of
        [] \<Rightarrow> rmatch ps s st g
      | x # xs \<Rightarrow>
          if ci_eq c x
          then (case rmatch ps xs st g of
                  Some r \<Rightarrow> Some r
                | None \<Rightarrow> rmatch ps s st g)
          else rmatch ps s st g)"
| "rmatch (StarNot cs sp # ps) s st g =
     rstar ps s (length (takeWhile (in_class cs sp) s)) st g"
| "rmatch (GroupOpen # ps) s st g = rmatch ps s s g"
| "rmatch (GroupClose # ps) s st g = rmatch ps s st (take (length st - length s) st)"
| "rstar ps s k st g =
     (case rmatch ps (drop k s) st g of
        Some r \<Rightarrow> Some r
      | None \<Rightarrow> (case k of 0 \<Rightarrow> None | Suc j \<Rightarrow> rstar ps s j st g))"
  by pat_completeness auto
termination
  by (relation "measures [\<lambda>a. case a of Inl (ps, _) \<Rightarrow> 2 * length ps | Inr (ps, _) \<Rightarrow> 2 * length ps + 1,
                          \<lambda>a. case a of Inl _ \<Rightarrow> 0 | Inr (_, _, k, _) \<Rightarrow> k]") auto

text \<open>\<^verbatim>\<open>re.search\<close>: the match at the leftmost position of the text that has one; the
  result is \<^verbatim>\<open>match.group(1)\<close>.\<close>

fun rsearch :: "rx list \<Rightarrow> string \<Rightarrow> string option" where
  "rsearch ps [] = rmatch ps [] [] []"
| "rsearch ps (x # xs) =
     (case rmatch ps (x # xs) [] [] of
        Some g \<Rightarrow> Some g
      | None \<Rightarrow> rsearch ps xs)"

text \<open>The four patterns, in the order of the source:
  \<^verbatim>\<open>src="([^"]*\.m3u8[^"]*)"\<close>, \<^verbatim>\<open>src='([^']*\.m3u8[^']*)'\<close>,
  \<^verbatim>\<open>"(https?://[^"]*\.m3u8[^"]*)"\<close> and \<^verbatim>\<open>(https?://[^\s<>"\']*\.m3u8[^\s<>"\']*)\<close>.\<close>

definition m3u8_patterns :: "rx list list" where
  "m3u8_patterns =
     [ map Lit ''src='' @ [Lit DQ, GroupOpen, StarNot [DQ] False] @ map Lit ''.m3u8'' @
         [StarNot [DQ] False, GroupClose, Lit DQ],
       map Lit ''src='' @ [Lit SQ, GroupOpen, StarNot [SQ] False] @ map Lit ''.m3u8'' @
         [StarNot [SQ] False, GroupClose, Lit SQ],
       [Lit DQ, GroupOpen] @ map Lit ''http'' @ [OptLit CHR ''s''] @ map Lit ''://'' @
         [StarNot [DQ] False] @ map Lit ''.m3u8'' @ [StarNot [DQ] False, GroupClose, Lit DQ],
       [GroupOpen] @ map Lit ''http'' @ [OptLit CHR ''s''] @ map Lit ''://'' @
         [StarNot (''<>'' @ [DQ, SQ]) True] @ map Lit ''.m3u8'' @
         [StarNot (''<>'' @ [DQ, SQ]) True, GroupClose] ]"

text \<open>The loop over the patterns, left at the first pattern that matches.\<close>

fun first_match :: "rx list list \<Rightarrow> string \<Rightarrow> string option" where
  "first_match [] text = None"
| "first_match (pattern # patterns) text =
     (case rsearch pattern text of
        Some g \<Rightarrow> Some g
      | None \<Rightarrow> first_match patterns text)"

definition find_m3u8_url :: "string \<Rightarrow> string option" where
  "find_m3u8_url text = first_match m3u8_patterns text"


section \<open>What the program calls outside itself\<close>

text \<open>
  The calls that leave the program: \<^verbatim>\<open>os.makedirs(path, exist_ok=True)\<close>,
  \<^verbatim>\<open>cloudscraper.create_scraper(...)\<close>, \<^verbatim>\<open>scraper.get(url, headers=..., timeout=...)\<close>,
  the writing of a file (\<^verbatim>\<open>open(path, 'w', encoding='utf-8')\<close> and \<^verbatim>\<open>f.write(content)\<close>,
  taken as one call) and \<^verbatim>\<open>time.sleep(seconds)\<close>. Console output is not modelled.
\<close>

datatype call =
    MakeDirs string
  | CreateScraper
  | Get string "(string \<times> string) list" int
  | WriteFile string string
  | Sleep int

text \<open>A call that was made, with how it ended: it returned, or it raised.\<close>

datatype event = Returned call | Raised call exn

record response =
  status_code :: int
  response_text :: string

text \<open>
  What the outside answers. Each answer may depend on everything that happened before, the
  list of events so far: \<open>None\<close> (or \<open>Inr\<close>) when the call returns, the exception when it
  raises. \<open>check_bracketed_host\<close> is the library's check of a bracketed host in a URL.
\<close>

record env =
  makedirs :: "event list \<Rightarrow> string \<Rightarrow> exn option"
  create_scraper :: "event list \<Rightarrow> exn option"
  scraper_get :: "event list \<Rightarrow> string \<Rightarrow> (string \<times> string) list \<Rightarrow> int \<Rightarrow> exn + response"
  write_file :: "event list \<Rightarrow> string \<Rightarrow> string \<Rightarrow> exn option"
  check_bracketed_host :: "string \<Rightarrow> string option"


section \<open>\<^verbatim>\<open>download_stream_manifest\<close>\<close>

text \<open>The dictionary the function returns; a key that is absent is \<open>None\<close>.\<close>

record result =
  success :: bool
  message :: string
  file_path :: "string option"
  m3u8_url :: "string option"

definition embed_headers :: "string \<Rightarrow> (string \<times> string) list" where
  "embed_headers referer =
     [(''User-Agent'', ''Mozilla/5.0 (Windows NT 10.0; Win64; x64) AppleWebKit/537.36 (KHTML, like Gecko) Chrome/120.0.0.0 Safari/537.36''),
      (''Accept'', ''text/html,application/xhtml+xml,application/xml;q=0.9,image/avif,image/webp,*/*;q=0.8''),
      (''Accept-Language'', ''tr-TR,tr;q=0.9,en-US;q=0.8,en;q=0.7''),
      (''Referer'', referer),
      (''Connection'', ''keep-alive''),
      (''Upgrade-Insecure-Requests'', ''1''),
      (''Sec-Fetch-Dest'', ''iframe''),
      (''Sec-Fetch-Mode'', ''navigate''),
      (''Sec-Fetch-Site'', ''cross-site'')]"

text \<open>
  The body of the \<^verbatim>\<open>try\<close> block: the dictionary a \<^verbatim>\<open>return\<close> gives, or the exception
  that leaves the block, together with the events, the calls of this run appended.
\<close>

definition download_try ::
  "env \<Rightarrow> string \<Rightarrow> string \<Rightarrow> string \<Rightarrow> string \<Rightarrow> string \<Rightarrow> event list \<Rightarrow>
     (exn + result) \<times> event list" where
  "download_try env stream_id referer country subdivision folder_name h0 =
     (let folder_path = path_join country [subdivision, folder_name] in
      case makedirs env h0 folder_path of
        Some e \<Rightarrow> (Inl e, h0 @ [Raised (MakeDirs folder_path) e])
      | None \<Rightarrow>
     (let h1 = h0 @ [Returned (MakeDirs folder_path)] in
      case create_scraper env h1 of
        Some e \<Rightarrow> (Inl e, h1 @ [Raised CreateScraper e])
      | None \<Rightarrow>
     (let h2 = h1 @ [Returned CreateScraper];
          embed_url = ''https://embed.galata.ai/embed/'' @ stream_id;
          headers = embed_headers referer in
      case scraper_get env h2 embed_url headers 30 of
        Inl e \<Rightarrow> (Inl e, h2 @ [Raised (Get embed_url headers 30) e])
      | Inr response \<Rightarrow>
     (let h3 = h2 @ [Returned (Get embed_url headers 30)] in
      if status_code response \<noteq> 200 then
        (Inr \<lparr>success = False,
              message = ''Failed to fetch embed page. HTTP Status: '' @ str_int (status_code response),
              file_path = None, m3u8_url = None\<rparr>, h3)
      else
     (case find_m3u8_url (response_text response) of
        None \<Rightarrow>
          (Inr \<lparr>success = False, message = ''M3U8 URL not found in embed page'',
                file_path = None, m3u8_url = None\<rparr>, h3)
      | Some m3u8_url' \<Rightarrow>
      if m3u8_url' = [] then
        (Inr \<lparr>success = False, message = ''M3U8 URL not found in embed page'',
              file_path = None, m3u8_url = None\<rparr>, h3)
      else
     (case scraper_get env h3 m3u8_url' [(''Referer'', embed_url)] 30 of
        Inl e \<Rightarrow> (Inl e, h3 @ [Raised (Get m3u8_url' [(''Referer'', embed_url)] 30) e])
      | Inr m3u8_response \<Rightarrow>
     (let h4 = h3 @ [Returned (Get m3u8_url' [(''Referer'', embed_url)] 30)] in
      if status_code m3u8_response \<noteq> 200 then
        (Inr \<lparr>success = False,
              message = ''Failed to fetch M3U8 file. HTTP Status: '' @ str_int (status_code m3u8_response),
              file_path = None, m3u8_url = None\<rparr>, h4)
      else
     (case processed_content (check_bracketed_host env) m3u8_url' (response_text m3u8_response) of
        Inl e \<Rightarrow> (Inl e, h4)
      | Inr content \<Rightarrow>
     (let output_file = path_join folder_path [stream_id @ ''.m3u8''] in
      case write_file env h4 output_file content of
        Some e \<Rightarrow> (Inl e, h4 @ [Raised (WriteFile output_file content) e])
      | None \<Rightarrow>
        (Inr \<lparr>success = True, message = ''M3U8 file successfully downloaded and processed'',
              file_path = Some output_file, m3u8_url = Some m3u8_url'\<rparr>,
         h4 @ [Returned (WriteFile output_file content)]))))))))))"

text \<open>The function: the \<^verbatim>\<open>try\<close> block with its \<^verbatim>\<open>except Exception as e\<close>.\<close>

definition download_stream_manifest ::
  "env \<Rightarrow> string \<Rightarrow> string \<Rightarrow> string \<Rightarrow> string \<Rightarrow> string \<Rightarrow> event list \<Rightarrow>
     result \<times> event list" where
  "download_stream_manifest env stream_id referer country subdivision folder_name h0 =
     (case download_try env stream_id referer country subdivision folder_name h0 of
        (Inr r, h) \<Rightarrow> (r, h)
      | (Inl e, h) \<Rightarrow>
          (\<lparr>success = False, message = ''Error: '' @ str_of e,
            file_path = None, m3u8_url = None\<rparr>, h))"


section \<open>\<^verbatim>\<open>process_all_streams\<close>\<close>

text \<open>One entry of the configuration, with the keys the loop reads.\<close>

record stream =
  country :: string
  subdivision :: string
  folder_name :: string
  stream_id :: string
  name :: string
  referer :: string

text \<open>One entry of \<^verbatim>\<open>failed_streams\<close>: the keys \<^verbatim>\<open>name\<close>, \<^verbatim>\<open>location\<close>, \<^verbatim>\<open>stream_id\<close>
  and \<^verbatim>\<open>error\<close>.\<close>

record failed_stream =
  failed_name :: string
  failed_location :: string
  failed_stream_id :: string
  failed_error :: string

text \<open>
  The loop \<^verbatim>\<open>for idx, stream in enumerate(streams, 1)\<close>: \<open>n\<close> is \<^verbatim>\<open>len(streams)\<close>,
  the triple holds \<^verbatim>\<open>successful\<close>, \<^verbatim>\<open>failed\<close> and \<^verbatim>\<open>failed_streams\<close>.
  \<^verbatim>\<open>time.sleep\<close> raises \<^verbatim>\<open>ValueError\<close> for a negative length, outside any \<^verbatim>\<open>try\<close>.
\<close>

fun streams_loop ::
  "env \<Rightarrow> nat \<Rightarrow> int \<Rightarrow> nat \<Rightarrow> stream list \<Rightarrow> int \<times> int \<times> failed_stream list \<Rightarrow>
     event list \<Rightarrow> (exn + int \<times> int \<times> failed_stream list) \<times> event list" where
  "streams_loop env n delay idx [] acc h = (Inr acc, h)"
| "streams_loop env n delay idx (s # rest) acc h =
     (case acc of (successful, failed, failed_streams) \<Rightarrow>
      case download_stream_manifest env (stream_id s) (referer s) (country s)
             (subdivision s) (folder_name s) h of
        (result, h1) \<Rightarrow>
          let acc1 =
                (if success result then (successful + 1, failed, failed_streams)
                 else (successful, failed + 1,
                       failed_streams @
                         [\<lparr>failed_name = name s,
                           failed_location = country s @ ''/'' @ subdivision s @ ''/'' @ folder_name s,
                           failed_stream_id = stream_id s,
                           failed_error = message result\<rparr>]))
          in if idx < n then
               (if delay < 0
                then (Inl (Exn ''sleep length must be non-negative''),
                      h1 @ [Raised (Sleep delay) (Exn ''sleep length must be non-negative'')])
                else streams_loop env n delay (idx + 1) rest acc1 (h1 @ [Returned (Sleep delay)]))
             else streams_loop env n delay (idx + 1) rest acc1 h1)"

text \<open>The dictionary \<^verbatim>\<open>process_all_streams\<close> returns.\<close>

record summary =
  total :: int
  successful :: int
  failed :: int
  failed_streams :: "failed_stream list"

text \<open>
  \<^verbatim>\<open>process_all_streams\<close> from the loaded list \<^verbatim>\<open>streams\<close> on (the reading of the
  configuration file comes before and is not part of the model).
\<close>

definition process_all_streams ::
  "env \<Rightarrow> stream list \<Rightarrow> int \<Rightarrow> event list \<Rightarrow> (exn + summary) \<times> event list" where
  "process_all_streams env streams delay h0 =
     (case streams_loop env (length streams) delay 1 streams (0, 0, []) h0 of
        (Inl e, h) \<Rightarrow> (Inl e, h)
      | (Inr (n_successful, n_failed, failed_list), h) \<Rightarrow>
          (Inr \<lparr>total = int (length streams), successful = n_successful, failed = n_failed,
                failed_streams = failed_list\<rparr>, h))"


section \<open>Auxiliary notions for the statements\<close>

text \<open>A text without square brackets: \<^verbatim>\<open>urlsplit\<close> raises only on the brackets of an
  authority.\<close>

definition bracket_free :: "string \<Rightarrow> bool" where
  "bracket_free s = (CHR ''['' \<notin> set s \<and> CHR '']'' \<notin> set s)"

text \<open>A check of bracketed hosts that accepts every host.\<close>

definition no_check :: "string \<Rightarrow> string option" where
  "no_check host = None"

text \<open>A text without whitespace.\<close>

definition no_space :: "string \<Rightarrow> bool" where
  "no_space s = list_all (\<lambda>c. \<not> isspace c) s"

text \<open>A line that the loop hands to \<^verbatim>\<open>urljoin\<close>: not blank, not a comment and without
  the prefix \<^verbatim>\<open>http://\<close> or \<^verbatim>\<open>https://\<close>, all after trimming.\<close>

definition relative_line :: "string \<Rightarrow> bool" where
  "relative_line line =
     (strip line \<noteq> [] \<and> \<not> startswith (strip line) ''#'' \<and>
      \<not> startswith (strip line) ''http://'' \<and> \<not> startswith (strip line) ''https://'')"

text \<open>The text \<open>s\<close> begins with \<open>w\<close>, and \<open>s\<close> contains \<open>w\<close>, both up to the case of
  letters, compared as \<^verbatim>\<open>re.IGNORECASE\<close> compares.\<close>

definition ci_prefix :: "string \<Rightarrow> string \<Rightarrow> bool" where
  "ci_prefix w s = (length w \<le> length s \<and> list_all2 ci_eq w (take (length w) s))"




text \<open>A path component that \<^verbatim>\<open>os.path.join\<close> puts between two separators as it is: not
  empty, and neither beginning nor ending with the separator.\<close>

definition plain_component :: "string \<Rightarrow> bool" where
  "plain_component s = (s \<noteq> [] \<and> \<not> startswith s ''/'' \<and> \<not> endswith s ''/'')"


section \<open>An environment for the examples\<close>

text \<open>
  An outside in which the file system never fails, the embed page of the stream
  \<^verbatim>\<open>gone\<close> answers 404, that of \<^verbatim>\<open>empty\<close> holds no manifest URL, that of \<^verbatim>\<open>slow\<close>
  times out, that of \<^verbatim>\<open>odd\<close> points to a manifest with a line that \<^verbatim>\<open>urljoin\<close>
  rejects, that of \<^verbatim>\<open>locked\<close> points to a manifest that answers 403, and every other
  embed page points to a manifest of one segment.
\<close>

definition page_with :: "string \<Rightarrow> string" where
  "page_with url = ''<video src='' @ [DQ] @ url @ [DQ] @ ''></video>''"

definition example_get ::
  "event list \<Rightarrow> string \<Rightarrow> (string \<times> string) list \<Rightarrow> int \<Rightarrow> exn + response" where
  "example_get h url headers timeout =
     (if url = ''https://embed.galata.ai/embed/gone''
      then Inr \<lparr>status_code = 404, response_text = ''Not Found''\<rparr>
      else if url = ''https://embed.galata.ai/embed/empty''
      then Inr \<lparr>status_code = 200, response_text = ''<p>offline</p>''\<rparr>
      else if url = ''https://embed.galata.ai/embed/slow''
      then Inl (Exn ''Read timed out'')
      else if url = ''https://embed.galata.ai/embed/odd''
      then Inr \<lparr>status_code = 200, response_text = page_with ''https://cdn.example/odd.m3u8''\<rparr>
      else if url = ''https://embed.galata.ai/embed/locked''
      then Inr \<lparr>status_code = 200, response_text = page_with ''https://cdn.example/locked.m3u8''\<rparr>
      else if startswith url ''https://embed.galata.ai/embed/''
      then Inr \<lparr>status_code = 200, response_text = page_with ''https://cdn.example/live/x.m3u8''\<rparr>
      else if url = ''https://cdn.example/live/x.m3u8''
      then Inr \<lparr>status_code = 200, response_text = ''#EXTM3U'' @ [LF] @ ''seg1.ts'' @ [LF]\<rparr>
      else if url = ''https://cdn.example/odd.m3u8''
      then Inr \<lparr>status_code = 200, response_text = ''#EXTM3U'' @ [LF] @ ''//[''\<rparr>
      else Inr \<lparr>status_code = 403, response_text = []\<rparr>)"

definition example_env :: env where
  "example_env =
     \<lparr>makedirs = (\<lambda>h path. None), create_scraper = (\<lambda>h. None), scraper_get = example_get,
      write_file = (\<lambda>h path content. None), check_bracketed_host = no_check\<rparr>"

text \<open>The same outside with a disk that is full: every write raises.\<close>

definition full_disk_env :: env where
  "full_disk_env =
     \<lparr>makedirs = (\<lambda>h path. None), create_scraper = (\<lambda>h. None), scraper_get = example_get,
      write_file = (\<lambda>h path content. Some (Exn ''[Errno 28] No space left on device'')),
      check_bracketed_host = no_check\<rparr>"


section \<open>Lemmas on the text functions and on the URL library\<close>

lemma split_on_not_Nil: "split_on c s \<noteq> []"
  by (induction s) (auto split: list.splits)

lemma split_on_chars: "x \<in> set (split_on c s) \<Longrightarrow> set x \<subseteq> set s"
proof (induction s arbitrary: x)
  case Nil
  then show ?case by simp
next
  case (Cons a s)
  show ?case
  proof (cases "a = c")
    case True
    then show ?thesis using Cons by auto
  next
    case False
    obtain w ws where w: "split_on c s = w # ws"
      using split_on_not_Nil [of c s] by (cases "split_on c s") auto
    have "x = a # w \<or> x \<in> set ws" using Cons.prems False w by simp
    then show ?thesis
      using Cons.IH [of w] Cons.IH [of x] w by auto
  qed
qed

lemma set_join: "set (join sep ps) \<subseteq> set sep \<union> \<Union> (set ` set ps)"
  by (induction sep ps rule: join.induct) auto

lemma splitnetloc_chars:
  "splitnetloc url start = (a, b) \<Longrightarrow> set a \<subseteq> set url \<and> set b \<subseteq> set url"
  unfolding splitnetloc_def Let_def
  by (auto dest: in_set_takeD in_set_dropD)

lemma splitparams_chars:
  "splitparams url = (a, b) \<Longrightarrow> set a \<subseteq> set url \<and> set b \<subseteq> set url"
  unfolding splitparams_def
  by (auto split: if_splits option.splits dest: in_set_takeD in_set_dropD in_set_butlastD)

lemma split_first_chars:
  "split_first c url = (a, b) \<Longrightarrow> set a \<subseteq> set url \<and> set b \<subseteq> set url"
  unfolding split_first_def
  by (auto dest: set_takeWhileD set_dropWhileD in_set_dropD)

lemma split_authority_chars:
  "split_authority chk url = Inr (a, b) \<Longrightarrow> set a \<subseteq> set url \<and> set b \<subseteq> set url"
  unfolding split_authority_def
  by (auto split: if_splits prod.splits option.splits dest!: splitnetloc_chars)

lemma split_scheme_cases:
  "split_scheme s u = (s, u) \<or> (\<exists>i. split_scheme s u = (map lower (take i u), drop (i + 1) u))"
  unfolding split_scheme_def by (auto split: option.split)

lemma split_scheme_chars:
  assumes "split_scheme s u = (a, b)"
  shows "(set a \<subseteq> set s \<or> set a \<subseteq> lower ` set u) \<and> set b \<subseteq> set u"
proof -
  from split_scheme_cases [of s u] show ?thesis
  proof
    assume "split_scheme s u = (s, u)"
    then show ?thesis using assms by simp
  next
    assume "\<exists>i. split_scheme s u = (map lower (take i u), drop (i + 1) u)"
    then obtain i where "a = map lower (take i u)" "b = drop (i + 1) u"
      using assms by auto
    then show ?thesis
      by (auto dest: in_set_takeD in_set_dropD)
  qed
qed

lemma urlsplit_chars:
  assumes "urlsplit chk u s = Inr (sc, nl, p, q, fr)"
    and low: "\<And>c. P c \<Longrightarrow> P (lower c)"
    and U: "\<And>c. c \<in> set (remove_unsafe (dropWhile c0_or_space u)) \<Longrightarrow> P c"
    and S: "\<And>c. c \<in> set (remove_unsafe (rev (dropWhile c0_or_space (rev (dropWhile c0_or_space s))))) \<Longrightarrow> P c"
  shows "(\<forall>c \<in> set sc. P c) \<and> (\<forall>c \<in> set nl. P c) \<and> (\<forall>c \<in> set p. P c) \<and>
         (\<forall>c \<in> set q. P c) \<and> (\<forall>c \<in> set fr. P c)"
proof -
  let ?U = "remove_unsafe (dropWhile c0_or_space u)"
  let ?S = "remove_unsafe (rev (dropWhile c0_or_space (rev (dropWhile c0_or_space s))))"
  obtain sc1 u1 where 1: "split_scheme ?S ?U = (sc1, u1)" by (cases "split_scheme ?S ?U")
  obtain u2 where 2: "split_authority chk u1 = Inr (nl, u2)" and sc: "sc1 = sc"
    and 3: "(if CHR ''#'' \<in> set u2 then split_first CHR ''#'' u2 else (u2, [])) = (fst (if CHR ''#'' \<in> set u2 then split_first CHR ''#'' u2 else (u2, [])), fr)"
    and 4: "(if CHR ''?'' \<in> set (fst (if CHR ''#'' \<in> set u2 then split_first CHR ''#'' u2 else (u2, []))) then split_first CHR ''?'' (fst (if CHR ''#'' \<in> set u2 then split_first CHR ''#'' u2 else (u2, []))) else (fst (if CHR ''#'' \<in> set u2 then split_first CHR ''#'' u2 else (u2, [])), [])) = (p, q)"
    using assms(1) 1 unfolding urlsplit_def
    by (auto split: sum.splits prod.splits if_splits)
  let ?u3 = "fst (if CHR ''#'' \<in> set u2 then split_first CHR ''#'' u2 else (u2, []))"
  have a: "(set sc \<subseteq> set ?S \<or> set sc \<subseteq> lower ` set ?U) \<and> set u1 \<subseteq> set ?U"
    using split_scheme_chars [OF 1] sc by simp
  have b: "set nl \<subseteq> set u1 \<and> set u2 \<subseteq> set u1"
    using split_authority_chars [OF 2] .
  have c: "set ?u3 \<subseteq> set u2 \<and> set fr \<subseteq> set u2"
    using 3 split_first_chars [of "CHR ''#''" u2 ?u3 fr] by (auto split: if_splits)
  have d: "set p \<subseteq> set ?u3 \<and> set q \<subseteq> set ?u3"
    using 4 split_first_chars [of "CHR ''?''" ?u3 p q] by (auto split: if_splits)
  have "\<forall>c \<in> set sc. P c" using a low U S by auto
  moreover have "\<forall>c \<in> set nl. P c" using a b U by blast
  moreover have "\<forall>c \<in> set fr. P c" using a b c U by blast
  moreover have "\<forall>c \<in> set p. P c" using a b c d U by blast
  moreover have "\<forall>c \<in> set q. P c" using a b c d U by blast
  ultimately show ?thesis by blast
qed


lemma urlparse_chars:
  assumes "urlparse chk u s = Inr (sc, nl, p, pa, q, fr)"
    and low: "\<And>c. P c \<Longrightarrow> P (lower c)"
    and U: "\<And>c. c \<in> set (remove_unsafe (dropWhile c0_or_space u)) \<Longrightarrow> P c"
    and S: "\<And>c. c \<in> set (remove_unsafe (rev (dropWhile c0_or_space (rev (dropWhile c0_or_space s))))) \<Longrightarrow> P c"
  shows "(\<forall>c \<in> set sc. P c) \<and> (\<forall>c \<in> set nl. P c) \<and> (\<forall>c \<in> set p. P c) \<and>
         (\<forall>c \<in> set pa. P c) \<and> (\<forall>c \<in> set q. P c) \<and> (\<forall>c \<in> set fr. P c)"
proof -
  obtain p0 where 1: "urlsplit chk u s = Inr (sc, nl, p0, q, fr)"
    and 2: "(if sc \<in> set uses_params \<and> CHR '';'' \<in> set p0 then splitparams p0 else (p0, [])) = (p, pa)"
    using assms(1) unfolding urlparse_def
    by (auto split: sum.splits prod.splits)
  have a: "(\<forall>c \<in> set sc. P c) \<and> (\<forall>c \<in> set nl. P c) \<and> (\<forall>c \<in> set p0. P c) \<and>
         (\<forall>c \<in> set q. P c) \<and> (\<forall>c \<in> set fr. P c)"
    using urlsplit_chars [OF 1, of P] low U S by blast
  have "set p \<subseteq> set p0 \<and> set pa \<subseteq> set p0"
    using 2 splitparams_chars [of p0 p pa] by (auto split: if_splits)
  then show ?thesis using a by blast
qed

lemma urlunparse_chars:
  assumes "\<forall>c \<in> set (sc @ nl @ p @ pa @ q @ fr). P c" "\<forall>c \<in> set ''/:?#;''. P c"
  shows "\<forall>c \<in> set (urlunparse (sc, nl, p, pa, q, fr)). P c"
  using assms unfolding urlunparse_def urlunsplit_def Let_def
  by auto


lemma foldl_resolve_step_subset:
  "set (foldl resolve_step acc segs) \<subseteq> set acc \<union> set segs"
proof (induction segs arbitrary: acc)
  case Nil
  show ?case by simp
next
  case (Cons a segs)
  have "set (resolve_step acc a) \<subseteq> set acc \<union> {a}"
    unfolding resolve_step_def by (auto dest: in_set_butlastD)
  then show ?case using Cons [of "resolve_step acc a"] by auto
qed

lemma middle_filter_subset:
  assumes "xs \<noteq> []"
  shows "set (hd xs # filter Q (butlast (tl xs)) @ [last xs]) \<subseteq> set xs"
proof -
  obtain y ys where xs: "xs = y # ys" using assms by (cases xs) auto
  have "set (butlast ys) \<subseteq> set ys" by (auto dest: in_set_butlastD)
  then have "set (filter Q (butlast ys)) \<subseteq> set xs" using xs by auto
  moreover have "last xs \<in> set xs" using assms by simp
  moreover have "hd xs \<in> set xs" using assms by simp
  ultimately show ?thesis using xs by simp
qed

lemma path_segments_cases:
  "path_segments bpath path = split_on CHR ''/'' path \<or>
   (\<exists>parts. set parts \<subseteq> set (split_on CHR ''/'' bpath) \<and>
      (path_segments bpath path = parts @ split_on CHR ''/'' path \<or>
       path_segments bpath path =
         hd (parts @ split_on CHR ''/'' path) #
         filter (\<lambda>s. s \<noteq> []) (butlast (tl (parts @ split_on CHR ''/'' path))) @
         [last (parts @ split_on CHR ''/'' path)]))"
proof -
  define parts where "parts = (if last (split_on CHR ''/'' bpath) \<noteq> []
     then butlast (split_on CHR ''/'' bpath) else split_on CHR ''/'' bpath)"
  have 1: "set parts \<subseteq> set (split_on CHR ''/'' bpath)"
    unfolding parts_def by (auto dest: in_set_butlastD)
  have 2: "path_segments bpath path =
    (if take 1 path = ''/'' then split_on CHR ''/'' path
     else if length (parts @ split_on CHR ''/'' path) \<ge> 2
          then hd (parts @ split_on CHR ''/'' path) #
               filter (\<lambda>s. s \<noteq> []) (butlast (tl (parts @ split_on CHR ''/'' path))) @
               [last (parts @ split_on CHR ''/'' path)]
          else parts @ split_on CHR ''/'' path)"
    unfolding path_segments_def parts_def Let_def by (rule refl)
  show ?thesis
  proof (cases "take 1 path = ''/''")
    case True
    then show ?thesis using 2 by simp
  next
    case False
    then show ?thesis using 1 2 by (cases "length (parts @ split_on CHR ''/'' path) \<ge> 2") auto
  qed
qed


lemma path_segments_chars:
  assumes "x \<in> set (path_segments bpath path)"
  shows "set x \<subseteq> set bpath \<union> set path"
proof -
  have sp: "set y \<subseteq> set path" if "y \<in> set (split_on CHR ''/'' path)" for y
    using that by (rule split_on_chars)
  from path_segments_cases [of bpath path] show ?thesis
  proof
    assume "path_segments bpath path = split_on CHR ''/'' path"
    then show ?thesis using assms sp by auto
  next
    assume "\<exists>parts. set parts \<subseteq> set (split_on CHR ''/'' bpath) \<and>
      (path_segments bpath path = parts @ split_on CHR ''/'' path \<or>
       path_segments bpath path =
         hd (parts @ split_on CHR ''/'' path) #
         filter (\<lambda>s. s \<noteq> []) (butlast (tl (parts @ split_on CHR ''/'' path))) @
         [last (parts @ split_on CHR ''/'' path)])"
    then obtain parts where parts: "set parts \<subseteq> set (split_on CHR ''/'' bpath)"
      and ps: "path_segments bpath path = parts @ split_on CHR ''/'' path \<or>
       path_segments bpath path =
         hd (parts @ split_on CHR ''/'' path) #
         filter (\<lambda>s. s \<noteq> []) (butlast (tl (parts @ split_on CHR ''/'' path))) @
         [last (parts @ split_on CHR ''/'' path)]"
      by blast
    have ne: "parts @ split_on CHR ''/'' path \<noteq> []"
      using split_on_not_Nil by simp
    have "set (path_segments bpath path) \<subseteq> set (parts @ split_on CHR ''/'' path)"
      using ps middle_filter_subset [OF ne] by (metis subset_refl)
    then have "x \<in> set parts \<or> x \<in> set (split_on CHR ''/'' path)"
      using assms by auto
    then show ?thesis
    proof
      assume "x \<in> set parts"
      then have "x \<in> set (split_on CHR ''/'' bpath)" using parts by blast
      then have "set x \<subseteq> set bpath" by (rule split_on_chars)
      then show ?thesis by blast
    next
      assume "x \<in> set (split_on CHR ''/'' path)"
      then show ?thesis using sp by blast
    qed
  qed
qed

lemma resolve_path_chars:
  assumes "c \<in> set (resolve_path bpath path)"
  shows "c \<in> set bpath \<or> c \<in> set path \<or> c = CHR ''/''"
proof -
  define segs where "segs = path_segments bpath path"
  define res where "res = foldl resolve_step [] segs"
  define r where "r = (if last segs = ''.'' \<or> last segs = ''..'' then res @ [[]] else res)"
  have rp: "resolve_path bpath path = (if join ''/'' r = [] then ''/'' else join ''/'' r)"
    by (simp only: resolve_path_def Let_def r_def res_def segs_def)
  show ?thesis
  proof (cases "join ''/'' r = []")
    case True
    then show ?thesis using assms rp by simp
  next
    case False
    then have "c \<in> set (join ''/'' r)" using assms rp by simp
    then have "c \<in> set ''/'' \<union> \<Union> (set ` set r)"
      using set_join [of "''/''" r] by (rule rev_subsetD)
    then have "c = CHR ''/'' \<or> (\<exists>y \<in> set r. c \<in> set y)" by simp
    then show ?thesis
    proof
      assume "c = CHR ''/''"
      then show ?thesis by simp
    next
      assume "\<exists>y \<in> set r. c \<in> set y"
      then obtain y where y: "y \<in> set r" "c \<in> set y" by blast
      have "set r \<subseteq> insert [] (set res)" unfolding r_def by (simp add: subset_insertI)
      then have "y \<in> set res" using y by auto
      then have "y \<in> set segs"
        using foldl_resolve_step_subset [of "[]" segs] unfolding res_def by auto
      then have "set y \<subseteq> set bpath \<union> set path"
        unfolding segs_def by (rule path_segments_chars)
      then show ?thesis using y by blast
    qed
  qed
qed


lemma split_on_no_sep: "x \<in> set (split_on c s) \<Longrightarrow> c \<notin> set x"
  by (induction s arbitrary: x) (auto split: list.splits if_splits)

lemma join_split_on: "join [c] (split_on c s) = s"
proof (induction s)
  case Nil
  show ?case by simp
next
  case (Cons x xs)
  obtain w ws where w: "split_on c xs = w # ws"
    using split_on_not_Nil [of c xs] by (cases "split_on c xs") auto
  show ?case
    using Cons w by (cases ws) auto
qed

lemma split_on_join:
  "ps \<noteq> [] \<Longrightarrow> (\<And>p. p \<in> set ps \<Longrightarrow> c \<notin> set p) \<Longrightarrow> split_on c (join [c] ps) = ps"
proof (induction "[c]" ps rule: join.induct)
  case 1
  then show ?case by simp
next
  case (2 p)
  then have "c \<notin> set p" by simp
  then have "split_on c p = [p]"
    by (induction p) auto
  then show ?case by simp
next
  case (3 p q ps)
  have a: "c \<notin> set p" using 3 by simp
  have b: "split_on c (join [c] (q # ps)) = q # ps"
    using 3 by simp
  have "split_on c (p @ c # r) = p # split_on c r" for r
    using a by (induction p) auto
  then show ?case using b by simp
qed

lemma set_strip: "set (strip s) \<subseteq> set s"
  unfolding strip_def
  by (metis set_dropWhileD set_rev subsetI)

lemma dropWhile_strip: "dropWhile isspace (strip s) = strip s"
proof -
  define d where "d = dropWhile isspace s"
  define t where "t = dropWhile isspace (rev d)"
  have st: "strip s = rev t" by (simp add: strip_def d_def t_def)
  show ?thesis
  proof (cases "t = []")
    case True
    then show ?thesis by (simp add: st)
  next
    case False
    have suf: "suffix t (rev d)" unfolding t_def by (rule suffix_dropWhile)
    then obtain p where p: "rev d = p @ t" by (auto simp: suffix_def)
    have "last t = last (rev d)" using p False by simp
    moreover have "d \<noteq> []" using False t_def by auto
    ultimately have "last t = hd d" by (simp add: last_rev)
    moreover have "\<not> isspace (hd d)"
      using \<open>d \<noteq> []\<close> unfolding d_def by (rule hd_dropWhile)
    ultimately have "\<not> isspace (hd (rev t))" using False by (simp add: hd_rev)
    then show ?thesis by (simp add: st dropWhile_eq_self_iff)
  qed
qed

lemma dropWhile_rev_strip: "dropWhile isspace (rev (strip s)) = rev (strip s)"
  by (simp add: strip_def)

lemma strip_idem: "strip (strip s) = strip s"
proof -
  have "strip (strip s) = rev (dropWhile isspace (rev (strip s)))"
    unfolding strip_def [of "strip s"] by (simp only: dropWhile_strip)
  then show ?thesis by (simp only: dropWhile_rev_strip rev_rev_ident)
qed

lemma strip_keeps_prefix:
  assumes "p \<noteq> []" "\<not> isspace (hd p)" "\<not> isspace (last p)"
  shows "prefix p (strip (p @ r))"
proof -
  have 1: "dropWhile isspace (p @ r) = p @ r"
    using assms by (cases p) auto
  have "\<exists>q. dropWhile isspace (rev r @ rev p) = q @ rev p"
  proof (cases "\<forall>x \<in> set (rev r). isspace x")
    case True
    then have "dropWhile isspace (rev r @ rev p) = dropWhile isspace (rev p)"
      by (metis dropWhile_append2 set_rev)
    also have "\<dots> = rev p" using assms by (simp add: dropWhile_eq_self_iff hd_rev)
    finally show ?thesis by simp
  next
    case False
    then have "dropWhile isspace (rev r @ rev p) = dropWhile isspace (rev r) @ rev p"
      by (metis dropWhile_append1)
    then show ?thesis by blast
  qed
  then obtain q where "dropWhile isspace (rev r @ rev p) = q @ rev p" by blast
  then have "strip (p @ r) = p @ rev q"
    by (simp add: strip_def 1)
  then show ?thesis by simp
qed


lemma of_char_lower:
  "(of_char (lower c) :: nat) = (if 65 \<le> (of_char c :: nat) \<and> (of_char c :: nat) \<le> 90 then of_char c + 32 else of_char c)"
  unfolding lower_def Let_def by (simp add: of_char_of)

lemma lower_eq_LF: "lower c = LF \<Longrightarrow> c = LF"
proof -
  assume a: "lower c = LF"
  have "(of_char (lower c) :: nat) = 10" using a by simp
  then have "(of_char c :: nat) = 10"
    using of_char_lower [of c] by (auto split: if_splits)
  then have "(of_char c :: nat) = of_char LF" by simp
  then show ?thesis by (simp only: of_char_eq_iff)
qed


lemma set_remove_unsafe: "set (remove_unsafe s) \<subseteq> set s"
  unfolding remove_unsafe_def by auto

lemma urljoin_cases:
  assumes "urljoin chk base url = Inr out" "base \<noteq> []" "url \<noteq> []"
  shows "out = url \<or>
    (\<exists>bscheme bnetloc bpath bparams bquery bfragment scheme netloc path params query fragment.
       urlparse chk base [] = Inr (bscheme, bnetloc, bpath, bparams, bquery, bfragment) \<and>
       urlparse chk url bscheme = Inr (scheme, netloc, path, params, query, fragment) \<and>
       scheme = bscheme \<and>
       (out = urlunparse (scheme, netloc, path, params, query, fragment) \<or>
        out = urlunparse (scheme, bnetloc, bpath, bparams, (if query = [] then bquery else query), fragment) \<or>
        out = urlunparse (scheme, netloc, bpath, bparams, (if query = [] then bquery else query), fragment) \<or>
        out = urlunparse (scheme, bnetloc, resolve_path bpath path, params, query, fragment) \<or>
        out = urlunparse (scheme, netloc, resolve_path bpath path, params, query, fragment)))"
  using assms unfolding urljoin_def Let_def
  by (auto split: sum.splits prod.splits if_splits)

lemma urljoin_chars:
  assumes j: "urljoin chk base url = Inr out" and ne: "url \<noteq> []"
    and low: "\<And>c. P c \<Longrightarrow> P (lower c)"
    and delims: "\<forall>c \<in> set ''/:?#;''. P c"
    and B: "\<And>c. c \<in> set (remove_unsafe base) \<Longrightarrow> P c"
    and U: "\<And>c. c \<in> set url \<Longrightarrow> P c"
  shows "\<forall>c \<in> set out. P c"
proof (cases "base = []")
  case True
  then have "out = url" using j unfolding urljoin_def by simp
  then show ?thesis using U by simp
next
  case False
  from urljoin_cases [OF j False ne] show ?thesis
  proof
    assume "out = url"
    then show ?thesis using U by simp
  next
    assume "\<exists>bscheme bnetloc bpath bparams bquery bfragment scheme netloc path params query fragment.
       urlparse chk base [] = Inr (bscheme, bnetloc, bpath, bparams, bquery, bfragment) \<and>
       urlparse chk url bscheme = Inr (scheme, netloc, path, params, query, fragment) \<and>
       scheme = bscheme \<and>
       (out = urlunparse (scheme, netloc, path, params, query, fragment) \<or>
        out = urlunparse (scheme, bnetloc, bpath, bparams, (if query = [] then bquery else query), fragment) \<or>
        out = urlunparse (scheme, netloc, bpath, bparams, (if query = [] then bquery else query), fragment) \<or>
        out = urlunparse (scheme, bnetloc, resolve_path bpath path, params, query, fragment) \<or>
        out = urlunparse (scheme, netloc, resolve_path bpath path, params, query, fragment))"
    then obtain bscheme bnetloc bpath bparams bquery bfragment scheme netloc path params query fragment
      where pb: "urlparse chk base [] = Inr (bscheme, bnetloc, bpath, bparams, bquery, bfragment)"
        and pu: "urlparse chk url bscheme = Inr (scheme, netloc, path, params, query, fragment)"
        and out: "out = urlunparse (scheme, netloc, path, params, query, fragment) \<or>
        out = urlunparse (scheme, bnetloc, bpath, bparams, (if query = [] then bquery else query), fragment) \<or>
        out = urlunparse (scheme, netloc, bpath, bparams, (if query = [] then bquery else query), fragment) \<or>
        out = urlunparse (scheme, bnetloc, resolve_path bpath path, params, query, fragment) \<or>
        out = urlunparse (scheme, netloc, resolve_path bpath path, params, query, fragment)"
      by blast
    have Bc: "P c" if "c \<in> set (remove_unsafe (dropWhile c0_or_space base))" for c
    proof -
      have "c \<in> set (remove_unsafe base)"
        using that unfolding remove_unsafe_def by (auto dest: set_dropWhileD)
      then show ?thesis by (rule B)
    qed
    have cb: "(\<forall>c \<in> set bscheme. P c) \<and> (\<forall>c \<in> set bnetloc. P c) \<and> (\<forall>c \<in> set bpath. P c) \<and>
         (\<forall>c \<in> set bparams. P c) \<and> (\<forall>c \<in> set bquery. P c) \<and> (\<forall>c \<in> set bfragment. P c)"
      by (rule urlparse_chars [OF pb, of P]) (auto intro: low Bc simp: remove_unsafe_def)
    have Uc: "P c" if "c \<in> set (remove_unsafe (dropWhile c0_or_space url))" for c
    proof -
      have "c \<in> set url"
        using that unfolding remove_unsafe_def by (auto dest: set_dropWhileD)
      then show ?thesis by (rule U)
    qed
    have Sc: "P c" if "c \<in> set (remove_unsafe (rev (dropWhile c0_or_space (rev (dropWhile c0_or_space bscheme)))))" for c
    proof -
      have "c \<in> set (rev (dropWhile c0_or_space (rev (dropWhile c0_or_space bscheme))))"
        using that set_remove_unsafe by blast
      then have "c \<in> set (dropWhile c0_or_space (rev (dropWhile c0_or_space bscheme)))"
        by simp
      then have "c \<in> set (rev (dropWhile c0_or_space bscheme))"
        by (rule set_dropWhileD)
      then have "c \<in> set bscheme"
        by (auto dest: set_dropWhileD)
      then show ?thesis using cb by blast
    qed
    have cu: "(\<forall>c \<in> set scheme. P c) \<and> (\<forall>c \<in> set netloc. P c) \<and> (\<forall>c \<in> set path. P c) \<and>
         (\<forall>c \<in> set params. P c) \<and> (\<forall>c \<in> set query. P c) \<and> (\<forall>c \<in> set fragment. P c)"
      by (rule urlparse_chars [OF pu, of P]) (auto intro: low Uc Sc)
    have rp: "\<forall>c \<in> set (resolve_path bpath path). P c"
    proof
      fix c assume "c \<in> set (resolve_path bpath path)"
      then have "c \<in> set bpath \<or> c \<in> set path \<or> c = CHR ''/''"
        by (rule resolve_path_chars)
      moreover have "P CHR ''/''" using delims by simp
      ultimately show "P c" using cb cu by blast
    qed
    have q: "\<forall>c \<in> set (if query = [] then bquery else query). P c"
      using cb cu by simp
    have gen: "\<forall>c \<in> set (urlunparse (scheme, n, p, pa, qu, fragment)). P c"
      if "\<forall>c \<in> set n. P c" "\<forall>c \<in> set p. P c" "\<forall>c \<in> set pa. P c" "\<forall>c \<in> set qu. P c" for n p pa qu
    proof (rule urlunparse_chars)
      show "\<forall>c \<in> set (scheme @ n @ p @ pa @ qu @ fragment). P c"
        using that cu by simp blast
      show "\<forall>c \<in> set ''/:?#;''. P c" by (rule delims)
    qed
    have cb': "\<forall>c \<in> set bnetloc. P c" "\<forall>c \<in> set bpath. P c" "\<forall>c \<in> set bparams. P c"
      using cb by blast+
    have cu': "\<forall>c \<in> set netloc. P c" "\<forall>c \<in> set path. P c" "\<forall>c \<in> set params. P c"
      "\<forall>c \<in> set query. P c"
      using cu by blast+
    from out show ?thesis
    proof (elim disjE)
      assume "out = urlunparse (scheme, netloc, path, params, query, fragment)"
      then show ?thesis using gen [OF cu'(1) cu'(2) cu'(3) cu'(4)] by simp
    next
      assume "out = urlunparse (scheme, bnetloc, bpath, bparams, (if query = [] then bquery else query), fragment)"
      then show ?thesis using gen [OF cb'(1) cb'(2) cb'(3) q] by simp
    next
      assume "out = urlunparse (scheme, netloc, bpath, bparams, (if query = [] then bquery else query), fragment)"
      then show ?thesis using gen [OF cu'(1) cb'(2) cb'(3) q] by simp
    next
      assume "out = urlunparse (scheme, bnetloc, resolve_path bpath path, params, query, fragment)"
      then show ?thesis using gen [OF cb'(1) rp cu'(3) cu'(4)] by simp
    next
      assume "out = urlunparse (scheme, netloc, resolve_path bpath path, params, query, fragment)"
      then show ?thesis using gen [OF cu'(1) rp cu'(3) cu'(4)] by simp
    qed
  qed
qed

lemma urljoin_no_LF:
  assumes "urljoin chk base url = Inr out" "url \<noteq> []" "LF \<notin> set url"
  shows "LF \<notin> set out"
proof -
  have "\<forall>c \<in> set out. c \<noteq> LF"
  proof (rule urljoin_chars [OF assms(1) assms(2)])
    show "\<And>c. c \<noteq> LF \<Longrightarrow> lower c \<noteq> LF" using lower_eq_LF by blast
    show "\<forall>c \<in> set ''/:?#;''. c \<noteq> LF" by simp
    show "\<And>c. c \<in> set (remove_unsafe base) \<Longrightarrow> c \<noteq> LF"
      unfolding remove_unsafe_def by auto
    show "\<And>c. c \<in> set url \<Longrightarrow> c \<noteq> LF" using assms(3) by auto
  qed
  then show ?thesis by blast
qed


lemma process_line_no_LF:
  assumes "process_line chk u l = Inr out" "LF \<notin> set l"
  shows "LF \<notin> set out"
proof -
  have s: "LF \<notin> set (strip l)" using assms(2) set_strip by blast
  show ?thesis
  proof (cases "out = strip l")
    case True
    then show ?thesis using s by simp
  next
    case False
    then have "urljoin chk u (strip l) = Inr out" "strip l \<noteq> []"
      using assms(1) unfolding process_line_def Let_def by (auto split: if_splits)
    then show ?thesis using s by (rule urljoin_no_LF)
  qed
qed

lemma processed_lines_all2:
  "processed_lines chk u ls = Inr ps \<Longrightarrow> list_all2 (\<lambda>l p. process_line chk u l = Inr p) ls ps"
  by (induction ls arbitrary: ps) (auto split: sum.splits)

lemma processed_lines_no_LF:
  assumes "processed_lines chk u ls = Inr ps" "\<forall>l \<in> set ls. LF \<notin> set l"
  shows "\<forall>p \<in> set ps. LF \<notin> set p"
proof -
  have "list_all2 (\<lambda>l p. process_line chk u l = Inr p) ls ps"
    using assms(1) by (rule processed_lines_all2)
  then show ?thesis using assms(2)
    by (induction rule: list_all2_induct) (auto dest: process_line_no_LF)
qed

lemma processed_content_lines:
  assumes "processed_content chk u t = Inr out"
  shows "processed_lines chk u (split_on LF t) = Inr (split_on LF out)"
proof -
  obtain ps where ps: "processed_lines chk u (split_on LF t) = Inr ps" and out: "out = join [LF] ps"
    using assms unfolding processed_content_def by (auto split: sum.splits)
  have len: "length ps = length (split_on LF t)"
    using processed_lines_all2 [OF ps] by (simp add: list_all2_lengthD)
  then have ne: "ps \<noteq> []" using split_on_not_Nil [of LF t] by auto
  have "\<forall>l \<in> set (split_on LF t). LF \<notin> set l" using split_on_no_sep by blast
  then have "\<forall>p \<in> set ps. LF \<notin> set p" using ps processed_lines_no_LF by blast
  then have "split_on LF (join [LF] ps) = ps" using ne split_on_join by blast
  then show ?thesis using ps out by simp
qed

lemma split_authority_returns:
  assumes "bracket_free url"
  shows "\<exists>r. split_authority chk url = Inr r"
proof (cases "take 2 url = ''//''")
  case False
  then show ?thesis unfolding split_authority_def by simp
next
  case True
  obtain netloc rest where s: "splitnetloc url 2 = (netloc, rest)"
    by (cases "splitnetloc url 2")
  then have "set netloc \<subseteq> set url" using splitnetloc_chars by blast
  then have "CHR ''['' \<notin> set netloc" "CHR '']'' \<notin> set netloc"
    using assms unfolding bracket_free_def by blast+
  then show ?thesis unfolding split_authority_def using True s by simp
qed

lemma urlsplit_returns:
  assumes "bracket_free u"
  shows "\<exists>r. urlsplit chk u s = Inr r"
proof -
  let ?S = "remove_unsafe (rev (dropWhile c0_or_space (rev (dropWhile c0_or_space s))))"
  let ?U = "remove_unsafe (dropWhile c0_or_space u)"
  obtain sc u1 where 1: "split_scheme ?S ?U = (sc, u1)" by (cases "split_scheme ?S ?U")
  have "set u1 \<subseteq> set ?U" using split_scheme_chars [OF 1] by simp
  moreover have "set ?U \<subseteq> set u"
    unfolding remove_unsafe_def by (auto dest: set_dropWhileD)
  ultimately have "bracket_free u1" using assms unfolding bracket_free_def by blast
  then obtain r where "split_authority chk u1 = Inr r"
    using split_authority_returns by blast
  then show ?thesis
    unfolding urlsplit_def using 1 by (auto split: prod.splits)
qed

lemma urlparse_returns:
  assumes "bracket_free u"
  shows "\<exists>r. urlparse chk u s = Inr r"
proof -
  obtain r where "urlsplit chk u s = Inr r" using urlsplit_returns [OF assms] by blast
  then show ?thesis unfolding urlparse_def by (auto split: prod.splits)
qed

lemma urljoin_returns:
  assumes "bracket_free base" "bracket_free url"
  shows "\<exists>out. urljoin chk base url = Inr out"
proof -
  obtain rb where rb: "urlparse chk base [] = Inr rb" using urlparse_returns [OF assms(1)] by blast
  obtain ru where ru: "urlparse chk url (fst rb) = Inr ru"
    using urlparse_returns [OF assms(2)] by blast
  show ?thesis
    unfolding urljoin_def Let_def using rb ru
    by (auto split: prod.splits)
qed

lemma process_line_returns:
  assumes "bracket_free u" "bracket_free l"
  shows "\<exists>out. process_line chk u l = Inr out"
proof -
  have "bracket_free (strip l)"
    using assms(2) set_strip [of l] unfolding bracket_free_def by blast
  then have "\<exists>out. urljoin chk u (strip l) = Inr out"
    using assms(1) urljoin_returns by blast
  then show ?thesis unfolding process_line_def Let_def by auto
qed

lemma processed_lines_returns:
  assumes "bracket_free u" "\<forall>l \<in> set ls. bracket_free l"
  shows "\<exists>ps. processed_lines chk u ls = Inr ps"
  using assms(2)
proof (induction ls)
  case Nil
  then show ?case by simp
next
  case (Cons l ls)
  obtain p where "process_line chk u l = Inr p"
    using process_line_returns [OF assms(1), of l] Cons.prems by auto
  moreover obtain ps where "processed_lines chk u ls = Inr ps"
    using Cons by auto
  ultimately show ?case by simp
qed

lemma processed_content_returns:
  assumes "bracket_free u" "bracket_free t"
  shows "\<exists>out. processed_content chk u t = Inr out"
proof -
  have "\<forall>l \<in> set (split_on LF t). bracket_free l"
    using assms(2) split_on_chars [of _ LF t] unfolding bracket_free_def by blast
  then obtain ps where "processed_lines chk u (split_on LF t) = Inr ps"
    using processed_lines_returns [OF assms(1)] by blast
  then show ?thesis unfolding processed_content_def by simp
qed


lemma process_line_blank_or_comment:
  "strip l = [] \<or> startswith (strip l) ''#'' \<Longrightarrow> process_line chk u l = Inr (strip l)"
  unfolding process_line_def Let_def by auto

lemma process_line_absolute:
  "startswith (strip l) ''http://'' \<or> startswith (strip l) ''https://'' \<Longrightarrow>
     process_line chk u l = Inr (strip l)"
  unfolding process_line_def Let_def by auto

lemma process_line_relative:
  "strip l \<noteq> [] \<Longrightarrow> \<not> startswith (strip l) ''#'' \<Longrightarrow>
   \<not> startswith (strip l) ''http://'' \<Longrightarrow> \<not> startswith (strip l) ''https://'' \<Longrightarrow>
     process_line chk u l = urljoin chk u (strip l)"
  unfolding process_line_def Let_def by auto

lemma processed_content_nth:
  assumes "processed_content chk u t = Inr out" "i < length (split_on LF t)"
  shows "length (split_on LF out) = length (split_on LF t)"
    and "process_line chk u (split_on LF t ! i) = Inr (split_on LF out ! i)"
proof -
  have a: "list_all2 (\<lambda>l p. process_line chk u l = Inr p) (split_on LF t) (split_on LF out)"
    using processed_content_lines [OF assms(1)] by (rule processed_lines_all2)
  show "length (split_on LF out) = length (split_on LF t)"
    using a by (simp add: list_all2_lengthD)
  show "process_line chk u (split_on LF t ! i) = Inr (split_on LF out ! i)"
    using list_all2_nthD [OF a assms(2)] .
qed



section \<open>Lemmas on a second pass of the rewriting\<close>

lemma split_scheme_http:
  "split_scheme s (remove_unsafe (dropWhile c0_or_space (''http://'' @ r))) =
     (''http'', ''//'' @ remove_unsafe r)"
  unfolding split_scheme_def remove_unsafe_def c0_or_space_def ascii_alpha_def scheme_chars_def
    lower_def Let_def
  by simp

lemma split_scheme_https:
  "split_scheme s (remove_unsafe (dropWhile c0_or_space (''https://'' @ r))) =
     (''https'', ''//'' @ remove_unsafe r)"
  unfolding split_scheme_def remove_unsafe_def c0_or_space_def ascii_alpha_def scheme_chars_def
    lower_def Let_def
  by simp

lemma urlparse_scheme:
  assumes "urlparse chk u s = Inr (sc, nl, p, pa, q, fr)"
  shows "sc = fst (split_scheme
             (remove_unsafe (rev (dropWhile c0_or_space (rev (dropWhile c0_or_space s)))))
             (remove_unsafe (dropWhile c0_or_space u)))"
  using assms unfolding urlparse_def urlsplit_def
  by (auto split: sum.splits prod.splits)

lemma urlparse_base_scheme:
  assumes "startswith base ''http://'' \<or> startswith base ''https://''"
    and "urlparse chk base s = Inr (sc, nl, p, pa, q, fr)"
  shows "sc = ''http'' \<or> sc = ''https''"
proof -
  from assms(1) show ?thesis
  proof
    assume "startswith base ''http://''"
    then obtain r where "base = ''http://'' @ r"
      unfolding startswith_def prefix_def by blast
    then show ?thesis
      using urlparse_scheme [OF assms(2)] split_scheme_http by simp
  next
    assume "startswith base ''https://''"
    then obtain r where "base = ''https://'' @ r"
      unfolding startswith_def prefix_def by blast
    then show ?thesis
      using urlparse_scheme [OF assms(2)] split_scheme_https by simp
  qed
qed

lemma urlunparse_http_prefix:
  assumes "sc = ''http'' \<or> sc = ''https''"
  shows "prefix (sc @ ''://'') (urlunparse (sc, nl, p, pa, q, fr))"
  using assms unfolding urlunparse_def urlunsplit_def uses_netloc_def Let_def
  by auto

lemma urljoin_same_or_absolute:
  assumes j: "urljoin chk base url = Inr out" and ne: "url \<noteq> []"
    and b: "startswith base ''http://'' \<or> startswith base ''https://''"
  shows "out = url \<or> startswith out ''http://'' \<or> startswith out ''https://''"
proof -
  have bne: "base \<noteq> []" using b unfolding startswith_def by auto
  from urljoin_cases [OF j bne ne] show ?thesis
  proof
    assume "out = url"
    then show ?thesis by simp
  next
    assume "\<exists>bscheme bnetloc bpath bparams bquery bfragment scheme netloc path params query fragment.
       urlparse chk base [] = Inr (bscheme, bnetloc, bpath, bparams, bquery, bfragment) \<and>
       urlparse chk url bscheme = Inr (scheme, netloc, path, params, query, fragment) \<and>
       scheme = bscheme \<and>
       (out = urlunparse (scheme, netloc, path, params, query, fragment) \<or>
        out = urlunparse (scheme, bnetloc, bpath, bparams, (if query = [] then bquery else query), fragment) \<or>
        out = urlunparse (scheme, netloc, bpath, bparams, (if query = [] then bquery else query), fragment) \<or>
        out = urlunparse (scheme, bnetloc, resolve_path bpath path, params, query, fragment) \<or>
        out = urlunparse (scheme, netloc, resolve_path bpath path, params, query, fragment))"
    then obtain bscheme bnetloc bpath bparams bquery bfragment n p pa q fr
      where pb: "urlparse chk base [] = Inr (bscheme, bnetloc, bpath, bparams, bquery, bfragment)"
        and out: "out = urlunparse (bscheme, n, p, pa, q, fr)"
      by blast
    have "bscheme = ''http'' \<or> bscheme = ''https''"
      using b pb by (rule urlparse_base_scheme)
    then have "prefix (bscheme @ ''://'') out" "bscheme = ''http'' \<or> bscheme = ''https''"
      using out urlunparse_http_prefix by blast+
    then show ?thesis unfolding startswith_def by auto
  qed
qed

lemma dropWhile_none: "\<forall>x \<in> set xs. \<not> P x \<Longrightarrow> dropWhile P xs = xs"
  by (cases xs) auto

lemma strip_no_space: "no_space s \<Longrightarrow> strip s = s"
proof -
  assume a: "no_space s"
  then have n: "\<forall>c \<in> set s. \<not> isspace c"
    unfolding no_space_def by (simp add: list_all_iff)
  have 1: "dropWhile isspace s = s" using n by (rule dropWhile_none)
  have 2: "dropWhile isspace (rev s) = rev s" by (rule dropWhile_none) (use n in simp)
  show ?thesis unfolding strip_def using 1 2 by simp
qed

lemma isspace_lower: "\<not> isspace c \<Longrightarrow> \<not> isspace (lower c)"
  unfolding isspace_def using of_char_lower [of c] by (auto split: if_splits)

lemma strip_absolute:
  assumes "startswith out ''http://'' \<or> startswith out ''https://''"
  shows "startswith (strip out) ''http://'' \<or> startswith (strip out) ''https://''"
proof -
  have h: "prefix p (strip (p @ r))" if "p = ''http://'' \<or> p = ''https://''" for p r
    by (rule strip_keeps_prefix) (use that in \<open>auto simp: isspace_def\<close>)
  from assms show ?thesis
  proof
    assume "startswith out ''http://''"
    then obtain r where "out = ''http://'' @ r" unfolding startswith_def prefix_def by blast
    then show ?thesis using h [of "''http://''" r] unfolding startswith_def by simp
  next
    assume "startswith out ''https://''"
    then obtain r where "out = ''https://'' @ r" unfolding startswith_def prefix_def by blast
    then show ?thesis using h [of "''https://''" r] unfolding startswith_def by simp
  qed
qed

lemma second_pass_line:
  assumes p: "process_line chk base l = Inr out"
    and b: "startswith base ''http://'' \<or> startswith base ''https://''"
  shows "process_line chk base out = Inr (strip out)"
proof (cases "strip l = [] \<or> startswith (strip l) ''#'' \<or>
              startswith (strip l) ''http://'' \<or> startswith (strip l) ''https://''")
  case True
  then have "out = strip l"
    using p process_line_blank_or_comment [of l chk base] process_line_absolute [of l chk base]
    by auto
  then have s: "strip out = strip l" by (simp add: strip_idem)
  show ?thesis
    using True s process_line_blank_or_comment [of out chk base] process_line_absolute [of out chk base]
    by auto
next
  case False
  then have rel: "strip l \<noteq> []" "\<not> startswith (strip l) ''#''"
    "\<not> startswith (strip l) ''http://''" "\<not> startswith (strip l) ''https://''"
    by auto
  have j: "urljoin chk base (strip l) = Inr out"
    using p process_line_relative [OF rel, of chk base] by simp
  from urljoin_same_or_absolute [OF j rel(1) b] show ?thesis
  proof
    assume o: "out = strip l"
    then have s: "strip out = strip l" by (simp add: strip_idem)
    show ?thesis
      using process_line_relative [of out chk base] rel s j o by simp
  next
    assume "startswith out ''http://'' \<or> startswith out ''https://''"
    then have "startswith (strip out) ''http://'' \<or> startswith (strip out) ''https://''"
      by (rule strip_absolute)
    then show ?thesis by (rule process_line_absolute)
  qed
qed

lemma processed_lines_map:
  "(\<forall>p \<in> set ps. process_line chk base p = Inr (f p)) \<Longrightarrow> processed_lines chk base ps = Inr (map f ps)"
  by (induction ps) auto

lemma second_pass:
  assumes c: "processed_content chk base t = Inr out"
    and b: "startswith base ''http://'' \<or> startswith base ''https://''"
  shows "processed_content chk base out = Inr (join [LF] (map strip (split_on LF out)))"
proof -
  have a: "list_all2 (\<lambda>l p. process_line chk base l = Inr p) (split_on LF t) (split_on LF out)"
    using processed_content_lines [OF c] by (rule processed_lines_all2)
  have "\<forall>p \<in> set (split_on LF out). process_line chk base p = Inr (strip p)"
  proof
    fix p assume "p \<in> set (split_on LF out)"
    then obtain i where i: "i < length (split_on LF out)" "split_on LF out ! i = p"
      by (auto simp: in_set_conv_nth)
    then have "process_line chk base (split_on LF t ! i) = Inr p"
      using a by (auto simp: list_all2_conv_all_nth)
    then show "process_line chk base p = Inr (strip p)" using b by (rule second_pass_line)
  qed
  then have "processed_lines chk base (split_on LF out) = Inr (map strip (split_on LF out))"
    by (rule processed_lines_map)
  then show ?thesis unfolding processed_content_def by simp
qed

lemma process_line_trimmed:
  assumes p: "process_line chk base l = Inr out"
    and ns: "no_space base" and rl: "relative_line l \<longrightarrow> no_space (strip l)"
  shows "strip out = out"
proof (cases "relative_line l")
  case False
  then have "strip l = [] \<or> startswith (strip l) ''#'' \<or>
              startswith (strip l) ''http://'' \<or> startswith (strip l) ''https://''"
    unfolding relative_line_def by blast
  then have "out = strip l"
    using p process_line_blank_or_comment [of l chk base] process_line_absolute [of l chk base]
    by auto
  then show ?thesis by (simp add: strip_idem)
next
  case True
  then have rel: "strip l \<noteq> []" "\<not> startswith (strip l) ''#''"
    "\<not> startswith (strip l) ''http://''" "\<not> startswith (strip l) ''https://''"
    unfolding relative_line_def by auto
  have j: "urljoin chk base (strip l) = Inr out"
    using p process_line_relative [OF rel, of chk base] by simp
  have "\<forall>c \<in> set out. \<not> isspace c"
  proof (rule urljoin_chars [OF j rel(1)])
    show "\<And>c. \<not> isspace c \<Longrightarrow> \<not> isspace (lower c)" by (rule isspace_lower)
    show "\<forall>c \<in> set ''/:?#;''. \<not> isspace c" by (simp add: isspace_def)
    show "\<And>c. c \<in> set (remove_unsafe base) \<Longrightarrow> \<not> isspace c"
      using ns set_remove_unsafe [of base] unfolding no_space_def by (auto simp: list_all_iff)
    show "\<And>c. c \<in> set (strip l) \<Longrightarrow> \<not> isspace c"
      using rl True unfolding no_space_def by (auto simp: list_all_iff)
  qed
  then have "no_space out" unfolding no_space_def by (simp add: list_all_iff)
  then show ?thesis by (rule strip_no_space)
qed



section \<open>Lemmas on the search for the manifest URL\<close>
lemma ci_prefix_Nil [simp]: "ci_prefix [] s"
  by (simp add: ci_prefix_def)






































section \<open>Lemmas on \<^verbatim>\<open>download_stream_manifest\<close>\<close>



lemma raised_event_is_the_exception:
  assumes "Raised cl e \<in> set (drop (length h) (snd (download_try env sid ref c sub f h)))"
  shows "fst (download_try env sid ref c sub f h) = Inl e"
  using assms unfolding download_try_def Let_def
  by (auto split: option.splits sum.splits if_splits simp del: path_join.simps)

lemma download_events:
  "snd (download_stream_manifest env sid ref c sub f h) = snd (download_try env sid ref c sub f h)"
  unfolding download_stream_manifest_def by (auto split: prod.splits sum.splits)

lemma endswith_slash: "endswith s ''/'' = (s \<noteq> [] \<and> last s = CHR ''/'')"
  unfolding endswith_def suffix_def by (cases s rule: rev_cases) auto

lemma path_join_plain:
  assumes "c \<noteq> []" "\<not> endswith c ''/''" "plain_component sub" "plain_component f"
    "\<not> startswith x ''/''"
  shows "path_join c [sub, f, x] = c @ ''/'' @ sub @ ''/'' @ f @ ''/'' @ x"
  using assms by (auto simp: plain_component_def endswith_slash)

lemma download_try_success:
  fixes env sid ref c sub f h
  defines "fp \<equiv> path_join c [sub, f]"
    and "eu \<equiv> ''https://embed.galata.ai/embed/'' @ sid"
  defines "h3 \<equiv> h @ [Returned (MakeDirs fp), Returned CreateScraper,
                       Returned (Get eu (embed_headers ref) 30)]"
  assumes "download_try env sid ref c sub f h = (Inr r, h')" "success r"
  shows "\<exists>u m content.
           scraper_get env h3 u [(''Referer'', eu)] 30 = Inr m \<and> status_code m = 200 \<and>
           processed_content (check_bracketed_host env) u (response_text m) = Inr content \<and>
           h' = h3 @ [Returned (Get u [(''Referer'', eu)] 30),
                      Returned (WriteFile (path_join fp [sid @ ''.m3u8'']) content)] \<and>
           file_path r = Some (path_join fp [sid @ ''.m3u8'']) \<and> m3u8_url r = Some u"
  using assms(4,5) unfolding download_try_def Let_def fp_def eu_def h3_def
  by (auto split: option.splits sum.splits if_splits simp del: path_join.simps)



lemma path_join_plain_nested:
  assumes "c \<noteq> []" "\<not> endswith c ''/''" "plain_component sub" "plain_component f"
    "\<not> startswith sid ''/''"
  shows "path_join (path_join c [sub, f]) [sid @ ''.m3u8''] =
         c @ ''/'' @ sub @ ''/'' @ f @ ''/'' @ sid @ ''.m3u8''"
proof -
  have "\<not> startswith (sid @ ''.m3u8'') ''/''"
    using assms(5) unfolding startswith_def by (cases sid) auto
  then have "path_join c [sub, f, sid @ ''.m3u8''] = c @ ''/'' @ sub @ ''/'' @ f @ ''/'' @ sid @ ''.m3u8''"
    using assms(1-4) by (rule path_join_plain [rotated 4])
  then show ?thesis by simp
qed



section \<open>The rewriting of the manifest\<close>

text \<open>
  Claim C5. Whenever the rewriting returns, its output has exactly as many lines as the
  input: it is the processed lines, one for each line of the input, joined with the line
  feed the input was split on. The rewriting returns for every base URL and text without
  square brackets (it raises only when \<^verbatim>\<open>urljoin\<close> rejects the brackets of an authority).
\<close>

theorem rewrite_keeps_line_count:
  "(processed_content chk base content = Inr out \<longrightarrow>
      length (split_on LF out) = length (split_on LF content) \<and>
      processed_lines chk base (split_on LF content) = Inr (split_on LF out) \<and>
      out = join [LF] (split_on LF out)) \<and>
   (bracket_free base \<and> bracket_free content \<longrightarrow>
      (\<exists>out'. processed_content chk base content = Inr out'))"
proof (intro conjI impI)
  assume a: "processed_content chk base content = Inr out"
  show "length (split_on LF out) = length (split_on LF content)"
    using processed_lines_all2 [OF processed_content_lines [OF a]]
    by (simp add: list_all2_lengthD)
  show "processed_lines chk base (split_on LF content) = Inr (split_on LF out)"
    using a by (rule processed_content_lines)
  show "out = join [LF] (split_on LF out)"
    by (simp only: join_split_on)
next
  assume "bracket_free base \<and> bracket_free content"
  then show "\<exists>out'. processed_content chk base content = Inr out'"
    using processed_content_returns by blast
qed

theorem rewrite_keeps_line_count_witness:
  "processed_content no_check ''https://host/path/manifest.m3u8''
     (''#EXTM3U'' @ [LF] @ '' segment1.ts '' @ [LF] @ [LF] @ ''/seg/1.ts'') =
     Inr (''#EXTM3U'' @ [LF] @ ''https://host/path/segment1.ts'' @ [LF] @ [LF] @ ''https://host/seg/1.ts'') \<and>
   length (split_on LF (''#EXTM3U'' @ [LF] @ ''https://host/path/segment1.ts'' @ [LF] @ [LF] @ ''https://host/seg/1.ts'')) =
   length (split_on LF (''#EXTM3U'' @ [LF] @ '' segment1.ts '' @ [LF] @ [LF] @ ''/seg/1.ts''))"
proof -
  have h: "processed_content no_check ''https://host/path/manifest.m3u8''
     (''#EXTM3U'' @ [LF] @ '' segment1.ts '' @ [LF] @ [LF] @ ''/seg/1.ts'') =
     Inr (''#EXTM3U'' @ [LF] @ ''https://host/path/segment1.ts'' @ [LF] @ [LF] @ ''https://host/seg/1.ts'')"
    by code_simp
  show ?thesis
    using h rewrite_keeps_line_count [of no_check "''https://host/path/manifest.m3u8''"
      "''#EXTM3U'' @ [LF] @ '' segment1.ts '' @ [LF] @ [LF] @ ''/seg/1.ts''"
      "''#EXTM3U'' @ [LF] @ ''https://host/path/segment1.ts'' @ [LF] @ [LF] @ ''https://host/seg/1.ts''"]
    by blast
qed


text \<open>
  Claim C2, as amended. Whenever the rewriting returns, a blank line and a comment line (a
  line whose trimmed content is empty or begins with \<^verbatim>\<open>#\<close>) come out at the same place as
  in the input with the surrounding whitespace trimmed, and the line is never resolved:
  the result is the same for every base URL.
\<close>

theorem rewrite_trims_comment_and_blank_lines:
  assumes "processed_content chk base content = Inr out"
    and "i < length (split_on LF content)"
    and "strip (split_on LF content ! i) = [] \<or> startswith (strip (split_on LF content ! i)) ''#''"
  shows "length (split_on LF out) = length (split_on LF content) \<and>
         split_on LF out ! i = strip (split_on LF content ! i) \<and>
         process_line chk' base' (split_on LF content ! i) = Inr (strip (split_on LF content ! i))"
proof -
  have "process_line chk base (split_on LF content ! i) = Inr (split_on LF out ! i)"
    using assms(1) assms(2) by (rule processed_content_nth(2))
  moreover have "process_line c b (split_on LF content ! i) = Inr (strip (split_on LF content ! i))" for c b
    using assms(3) by (rule process_line_blank_or_comment)
  ultimately show ?thesis
    using processed_content_nth(1) [OF assms(1) assms(2)] by simp
qed

theorem rewrite_trims_comment_and_blank_lines_witness:
  "split_on LF (''#EXTM3U'' @ [LF] @ ''https://host/path/segment1.ts'' @ [LF] @ [LF] @ ''# note'') ! 3 =
     strip (split_on LF ('' #EXTM3U'' @ [LF] @ '' segment1.ts '' @ [LF] @ ''   '' @ [LF] @ ''  # note  '') ! 3)"
proof -
  have 1: "processed_content no_check ''https://host/path/manifest.m3u8''
      ('' #EXTM3U'' @ [LF] @ '' segment1.ts '' @ [LF] @ ''   '' @ [LF] @ ''  # note  '') =
      Inr (''#EXTM3U'' @ [LF] @ ''https://host/path/segment1.ts'' @ [LF] @ [LF] @ ''# note'')"
    by code_simp
  have 2: "3 < length (split_on LF ('' #EXTM3U'' @ [LF] @ '' segment1.ts '' @ [LF] @ ''   '' @ [LF] @ ''  # note  ''))"
    by code_simp
  have 3: "strip (split_on LF ('' #EXTM3U'' @ [LF] @ '' segment1.ts '' @ [LF] @ ''   '' @ [LF] @ ''  # note  '') ! 3) = [] \<or>
     startswith (strip (split_on LF ('' #EXTM3U'' @ [LF] @ '' segment1.ts '' @ [LF] @ ''   '' @ [LF] @ ''  # note  '') ! 3)) ''#''"
    by code_simp
  show ?thesis
    using rewrite_trims_comment_and_blank_lines [OF 1 2 3] by blast
qed

text \<open>
  Claim C2 as stated fails: the comment line and the blank line of this text lose their
  surrounding whitespace.
\<close>

theorem comment_line_not_verbatim_counterexample:
  "processed_content no_check ''https://host/path/manifest.m3u8'' (''  # note  '' @ [LF] @ ''   '') =
     Inr (''# note'' @ [LF]) \<and>
   ''# note'' @ [LF] \<noteq> ''  # note  '' @ [LF] @ ''   ''"
  by code_simp





text \<open>
  Claim C10, as amended. For a base URL that begins with \<^verbatim>\<open>http://\<close> or \<^verbatim>\<open>https://\<close>, a
  second pass of the rewriting over the output of the first returns that output with
  every line trimmed; it returns the output unchanged when the base URL and the trimmed
  content of every line that is resolved contain no whitespace.
\<close>

theorem second_pass_only_trims:
  assumes "startswith base ''http://'' \<or> startswith base ''https://''"
    and "processed_content chk base t = Inr out"
  shows "processed_content chk base out = Inr (join [LF] (map strip (split_on LF out))) \<and>
         (no_space base \<and> (\<forall>l \<in> set (split_on LF t). relative_line l \<longrightarrow> no_space (strip l)) \<longrightarrow>
            processed_content chk base out = Inr out)"
proof (intro conjI impI)
  show sp: "processed_content chk base out = Inr (join [LF] (map strip (split_on LF out)))"
    using assms(2) assms(1) by (rule second_pass)
  assume h: "no_space base \<and> (\<forall>l \<in> set (split_on LF t). relative_line l \<longrightarrow> no_space (strip l))"
  have a: "list_all2 (\<lambda>l p. process_line chk base l = Inr p) (split_on LF t) (split_on LF out)"
    using processed_content_lines [OF assms(2)] by (rule processed_lines_all2)
  have "\<forall>p \<in> set (split_on LF out). strip p = p"
  proof
    fix p assume "p \<in> set (split_on LF out)"
    then obtain i where i: "i < length (split_on LF out)" "split_on LF out ! i = p"
      by (auto simp: in_set_conv_nth)
    then have 1: "process_line chk base (split_on LF t ! i) = Inr p"
      using a by (auto simp: list_all2_conv_all_nth)
    have "i < length (split_on LF t)" using a i(1) by (simp add: list_all2_lengthD)
    then have "split_on LF t ! i \<in> set (split_on LF t)" by simp
    then have 2: "relative_line (split_on LF t ! i) \<longrightarrow> no_space (strip (split_on LF t ! i))"
      using h by blast
    show "strip p = p" using 1 h 2 process_line_trimmed by blast
  qed
  then have "map strip (split_on LF out) = split_on LF out"
    by (simp add: map_idI)
  then show "processed_content chk base out = Inr out"
    using sp by (simp add: join_split_on)
qed

theorem second_pass_only_trims_witness:
  "processed_content no_check ''https://host/path/manifest.m3u8''
     (''#EXTM3U'' @ [LF] @ ''https://host/path/segment1.ts'' @ [LF] @ ''# a note'') =
   Inr (''#EXTM3U'' @ [LF] @ ''https://host/path/segment1.ts'' @ [LF] @ ''# a note'')"
proof -
  let ?b = "''https://host/path/manifest.m3u8''"
  let ?t = "'' #EXTM3U'' @ [LF] @ '' segment1.ts '' @ [LF] @ ''# a note  ''"
  let ?o = "''#EXTM3U'' @ [LF] @ ''https://host/path/segment1.ts'' @ [LF] @ ''# a note''"
  have 1: "startswith ?b ''http://'' \<or> startswith ?b ''https://''" by code_simp
  have 2: "processed_content no_check ?b ?t = Inr ?o" by code_simp
  have 3: "no_space ?b \<and> (\<forall>l \<in> set (split_on LF ?t). relative_line l \<longrightarrow> no_space (strip l))"
    by code_simp
  show ?thesis
    using second_pass_only_trims [OF 1 2] 3 by blast
qed

text \<open>
  Claim C10 as stated fails: the line \<^verbatim>\<open>a #\<close> is resolved to a URL that ends in a
  space, which the second pass trims.
\<close>

theorem rewrite_not_idempotent_counterexample:
  "startswith ''https://host/path/manifest.m3u8'' ''https://'' \<and>
   processed_content no_check ''https://host/path/manifest.m3u8'' ''a #'' = Inr ''https://host/path/a '' \<and>
   processed_content no_check ''https://host/path/manifest.m3u8'' ''https://host/path/a '' =
     Inr ''https://host/path/a'' \<and>
   ''https://host/path/a'' \<noteq> ''https://host/path/a ''"
  by code_simp



section \<open>The search for the manifest URL\<close>






section \<open>The run of one job\<close>

text \<open>
  Claim C1, as amended. A run that succeeds returns the path
  \<^verbatim>\<open>os.path.join(country, subdivision, folder_name, stream_id + '.m3u8')\<close> as its
  \<^verbatim>\<open>file_path\<close>, and its calls are, in this order and all returning:
  \<^verbatim>\<open>os.makedirs\<close> (with \<^verbatim>\<open>exist_ok=True\<close>) on the joined folder path, the creation of
  the scraper, the two fetches (both answered 200), and the writing of the rewritten
  manifest to that path, opened with mode \<^verbatim>\<open>'w'\<close>. For a country that is not empty
  and does not end with the separator, a subdivision and a folder name that are plain
  components and a stream identifier that does not begin with the separator, the path is
  \<^verbatim>\<open><country>/<subdivision>/<folder_name>/<stream_id>.m3u8\<close>.
\<close>

theorem successful_run_writes_m3u8_file:
  fixes env sid ref c sub f h
  defines "fp \<equiv> path_join c [sub, f]"
    and "eu \<equiv> ''https://embed.galata.ai/embed/'' @ sid"
    and "run \<equiv> download_stream_manifest env sid ref c sub f h"
  defines "out \<equiv> path_join fp [sid @ ''.m3u8'']"
    and "h3 \<equiv> h @ [Returned (MakeDirs fp), Returned CreateScraper,
                       Returned (Get eu (embed_headers ref) 30)]"
  assumes ok: "success (fst run)"
  shows "(\<exists>u m content.
            scraper_get env h3 u [(''Referer'', eu)] 30 = Inr m \<and> status_code m = 200 \<and>
            processed_content (check_bracketed_host env) u (response_text m) = Inr content \<and>
            snd run = h3 @ [Returned (Get u [(''Referer'', eu)] 30), Returned (WriteFile out content)] \<and>
            m3u8_url (fst run) = Some u) \<and>
         file_path (fst run) = Some out \<and>
         (c \<noteq> [] \<and> \<not> endswith c ''/'' \<and> plain_component sub \<and> plain_component f \<and>
          \<not> startswith sid ''/'' \<longrightarrow>
            out = c @ ''/'' @ sub @ ''/'' @ f @ ''/'' @ sid @ ''.m3u8'')"
proof -
  obtain r h' where t: "download_try env sid ref c sub f h = (Inr r, h')" and r: "fst run = r" "snd run = h'"
    using ok unfolding run_def download_stream_manifest_def
    by (cases "download_try env sid ref c sub f h") (auto split: sum.splits)
  have sr: "success r" using ok r by simp
  have a: "\<exists>u m content.
            scraper_get env h3 u [(''Referer'', eu)] 30 = Inr m \<and> status_code m = 200 \<and>
            processed_content (check_bracketed_host env) u (response_text m) = Inr content \<and>
            h' = h3 @ [Returned (Get u [(''Referer'', eu)] 30), Returned (WriteFile out content)] \<and>
            file_path r = Some out \<and> m3u8_url r = Some u"
    unfolding h3_def eu_def fp_def out_def by (rule download_try_success [OF t sr])
  have b: "out = c @ ''/'' @ sub @ ''/'' @ f @ ''/'' @ sid @ ''.m3u8''"
    if "c \<noteq> [] \<and> \<not> endswith c ''/'' \<and> plain_component sub \<and> plain_component f \<and>
          \<not> startswith sid ''/''"
    unfolding out_def fp_def using that path_join_plain_nested by blast
  show ?thesis using a b r by blast
qed

theorem successful_run_writes_m3u8_file_witness:
  "file_path (fst (download_stream_manifest example_env ''abc'' ''https://site.example/'' ''TR'' ''53'' ''rize'' [])) =
     Some (''TR'' @ ''/'' @ ''53'' @ ''/'' @ ''rize'' @ ''/'' @ ''abc'' @ ''.m3u8'')"
proof -
  have ok: "success (fst (download_stream_manifest example_env ''abc'' ''https://site.example/'' ''TR'' ''53'' ''rize'' []))"
    by code_simp
  have pl: "''TR'' \<noteq> [] \<and> \<not> endswith ''TR'' ''/'' \<and> plain_component ''53'' \<and> plain_component ''rize'' \<and>
          \<not> startswith ''abc'' ''/''"
    by code_simp
  have "file_path (fst (download_stream_manifest example_env ''abc'' ''https://site.example/'' ''TR'' ''53'' ''rize'' [])) =
      Some (path_join (path_join ''TR'' [''53'', ''rize'']) [''abc'' @ ''.m3u8'']) \<and>
    (''TR'' \<noteq> [] \<and> \<not> endswith ''TR'' ''/'' \<and> plain_component ''53'' \<and> plain_component ''rize'' \<and>
          \<not> startswith ''abc'' ''/'' \<longrightarrow>
       path_join (path_join ''TR'' [''53'', ''rize'']) [''abc'' @ ''.m3u8''] =
         ''TR'' @ ''/'' @ ''53'' @ ''/'' @ ''rize'' @ ''/'' @ ''abc'' @ ''.m3u8'')"
    using successful_run_writes_m3u8_file [OF ok] by blast
  then show ?thesis using pl by metis
qed

text \<open>Claim C1 as stated fails: the file of a successful run ends in \<^verbatim>\<open>.m3u8\<close>, not
  in \<^verbatim>\<open>.manifest\<close>.\<close>


theorem output_file_not_manifest_counterexample:
  "success (fst (download_stream_manifest example_env ''abc'' ''https://site.example/'' ''TR'' ''53'' ''rize'' [])) \<and>
   file_path (fst (download_stream_manifest example_env ''abc'' ''https://site.example/'' ''TR'' ''53'' ''rize'' [])) =
     Some ''TR/53/rize/abc.m3u8'' \<and>
   ''TR/53/rize/abc.m3u8'' \<noteq> ''TR/53/rize/abc.manifest''"
  by code_simp






text \<open>
  Claim C7. When the directory creation and the creation of the scraper have returned and
  the embed page is fetched: if its status is not 200 the run fails with the message
  \<^verbatim>\<open>Failed to fetch embed page. HTTP Status: \<close> followed by the status, and the fetch is
  its last call; if its status is 200, a manifest URL is found and the fetch of the
  manifest answers a status that is not 200, the run fails with the message
  \<^verbatim>\<open>Failed to fetch M3U8 file. HTTP Status: \<close> followed by that status, and this fetch
  is its last call. Each fetch is made once, and each message contains the status.
\<close>


theorem non_200_status_fails:
  fixes env sid ref c sub f h page
  defines "fp \<equiv> path_join c [sub, f]"
    and "eu \<equiv> ''https://embed.galata.ai/embed/'' @ sid"
  defines "h3 \<equiv> h @ [Returned (MakeDirs fp), Returned CreateScraper,
                       Returned (Get eu (embed_headers ref) 30)]"
  assumes mk: "makedirs env h fp = None"
    and cs: "create_scraper env (h @ [Returned (MakeDirs fp)]) = None"
    and get: "scraper_get env (h @ [Returned (MakeDirs fp), Returned CreateScraper]) eu
           (embed_headers ref) 30 = Inr page"
  shows "(status_code page \<noteq> 200 \<longrightarrow>
            download_stream_manifest env sid ref c sub f h =
              (\<lparr>success = False,
                message = ''Failed to fetch embed page. HTTP Status: '' @ str_int (status_code page),
                file_path = None, m3u8_url = None\<rparr>, h3)) \<and>
         (status_code page = 200 \<and> find_m3u8_url (response_text page) = Some u \<and> u \<noteq> [] \<and>
          scraper_get env h3 u [(''Referer'', eu)] 30 = Inr manifest \<and>
          status_code manifest \<noteq> 200 \<longrightarrow>
            download_stream_manifest env sid ref c sub f h =
              (\<lparr>success = False,
                message = ''Failed to fetch M3U8 file. HTTP Status: '' @ str_int (status_code manifest),
                file_path = None, m3u8_url = None\<rparr>,
               h3 @ [Returned (Get u [(''Referer'', eu)] 30)])) \<and>
         sublist (str_int n) (''Failed to fetch embed page. HTTP Status: '' @ str_int n) \<and>
         sublist (str_int n) (''Failed to fetch M3U8 file. HTTP Status: '' @ str_int n)"
proof -
  have sl: "sublist x (p @ x)" for x p :: string
    by (metis sublist_appendI append_Nil2)
  have a: "status_code page \<noteq> 200 \<longrightarrow>
            download_stream_manifest env sid ref c sub f h =
              (\<lparr>success = False,
                message = ''Failed to fetch embed page. HTTP Status: '' @ str_int (status_code page),
                file_path = None, m3u8_url = None\<rparr>, h3)"
    using mk cs get
    unfolding download_stream_manifest_def download_try_def Let_def fp_def eu_def h3_def
    by (auto simp del: path_join.simps)
  have b: "status_code page = 200 \<and> find_m3u8_url (response_text page) = Some u \<and> u \<noteq> [] \<and>
          scraper_get env h3 u [(''Referer'', eu)] 30 = Inr manifest \<and>
          status_code manifest \<noteq> 200 \<longrightarrow>
            download_stream_manifest env sid ref c sub f h =
              (\<lparr>success = False,
                message = ''Failed to fetch M3U8 file. HTTP Status: '' @ str_int (status_code manifest),
                file_path = None, m3u8_url = None\<rparr>,
               h3 @ [Returned (Get u [(''Referer'', eu)] 30)])"
    using mk cs get
    unfolding download_stream_manifest_def download_try_def Let_def fp_def eu_def h3_def
    by (auto simp del: path_join.simps)
  show ?thesis using a b sl by blast
qed

theorem non_200_status_fails_witness:
  "download_stream_manifest example_env ''gone'' ''https://site.example/'' ''TR'' ''53'' ''rize'' [] =
     (\<lparr>success = False, message = ''Failed to fetch embed page. HTTP Status: 404'',
       file_path = None, m3u8_url = None\<rparr>,
      [Returned (MakeDirs ''TR/53/rize''), Returned CreateScraper,
       Returned (Get ''https://embed.galata.ai/embed/gone'' (embed_headers ''https://site.example/'') 30)]) \<and>
   download_stream_manifest example_env ''locked'' ''https://site.example/'' ''TR'' ''53'' ''rize'' [] =
     (\<lparr>success = False, message = ''Failed to fetch M3U8 file. HTTP Status: 403'',
       file_path = None, m3u8_url = None\<rparr>,
      [Returned (MakeDirs ''TR/53/rize''), Returned CreateScraper,
       Returned (Get ''https://embed.galata.ai/embed/locked'' (embed_headers ''https://site.example/'') 30),
       Returned (Get ''https://cdn.example/locked.m3u8''
                   [(''Referer'', ''https://embed.galata.ai/embed/locked'')] 30)])"
proof -
  have fp: "path_join ''TR'' [''53'', ''rize''] = ''TR/53/rize''" by code_simp
  have mk: "makedirs example_env [] (path_join ''TR'' [''53'', ''rize'']) = None"
    by (simp add: example_env_def)
  have cs: "create_scraper example_env ([] @ [Returned (MakeDirs (path_join ''TR'' [''53'', ''rize'']))]) = None"
    by (simp add: example_env_def)
  have g1: "scraper_get example_env
        ([] @ [Returned (MakeDirs (path_join ''TR'' [''53'', ''rize''])), Returned CreateScraper])
        (''https://embed.galata.ai/embed/'' @ ''gone'') (embed_headers ''https://site.example/'') 30 =
      Inr \<lparr>status_code = 404, response_text = ''Not Found''\<rparr>"
    by (simp add: example_env_def example_get_def)
  have s404: "str_int 404 = ''404''" by code_simp
  have a: "download_stream_manifest example_env ''gone'' ''https://site.example/'' ''TR'' ''53'' ''rize'' [] =
     (\<lparr>success = False, message = ''Failed to fetch embed page. HTTP Status: 404'',
       file_path = None, m3u8_url = None\<rparr>,
      [Returned (MakeDirs ''TR/53/rize''), Returned CreateScraper,
       Returned (Get ''https://embed.galata.ai/embed/gone'' (embed_headers ''https://site.example/'') 30)])"
    using non_200_status_fails [OF mk cs g1] fp s404 by simp
  have g2: "scraper_get example_env
        ([] @ [Returned (MakeDirs (path_join ''TR'' [''53'', ''rize''])), Returned CreateScraper])
        (''https://embed.galata.ai/embed/'' @ ''locked'') (embed_headers ''https://site.example/'') 30 =
      Inr \<lparr>status_code = 200, response_text = page_with ''https://cdn.example/locked.m3u8''\<rparr>"
    by (simp add: example_env_def example_get_def)
  have u: "find_m3u8_url (page_with ''https://cdn.example/locked.m3u8'') = Some ''https://cdn.example/locked.m3u8''"
    by code_simp
  have g3: "scraper_get example_env
        ([] @ [Returned (MakeDirs (path_join ''TR'' [''53'', ''rize''])), Returned CreateScraper,
               Returned (Get (''https://embed.galata.ai/embed/'' @ ''locked'') (embed_headers ''https://site.example/'') 30)])
        ''https://cdn.example/locked.m3u8'' [(''Referer'', ''https://embed.galata.ai/embed/'' @ ''locked'')] 30 =
      Inr \<lparr>status_code = 403, response_text = []\<rparr>"
    by (simp add: example_env_def example_get_def startswith_def)
  have s403: "str_int 403 = ''403''" by code_simp
  have b: "download_stream_manifest example_env ''locked'' ''https://site.example/'' ''TR'' ''53'' ''rize'' [] =
     (\<lparr>success = False, message = ''Failed to fetch M3U8 file. HTTP Status: 403'',
       file_path = None, m3u8_url = None\<rparr>,
      [Returned (MakeDirs ''TR/53/rize''), Returned CreateScraper,
       Returned (Get ''https://embed.galata.ai/embed/locked'' (embed_headers ''https://site.example/'') 30),
       Returned (Get ''https://cdn.example/locked.m3u8''
                   [(''Referer'', ''https://embed.galata.ai/embed/locked'')] 30)])"
    using non_200_status_fails [OF mk cs g2, of "''https://cdn.example/locked.m3u8''"
        "\<lparr>status_code = 403, response_text = []\<rparr>"] u g3 fp s403
    by simp
  show ?thesis using a b by (rule conjI)
qed


text \<open>
  Claim C8. When an exception leaves the body of the \<^verbatim>\<open>try\<close> block, and so whenever one
  of the calls of the run raises, the run returns a result with \<^verbatim>\<open>success\<close> false, the
  message \<^verbatim>\<open>Error: \<close> followed by the text of the exception, and no file path. The
  function is total: it returns a result for every environment and raises nothing.
\<close>

theorem exceptions_are_caught:
  "(fst (download_try env sid ref c sub f h) = Inl e \<longrightarrow>
      download_stream_manifest env sid ref c sub f h =
        (\<lparr>success = False, message = ''Error: '' @ str_of e, file_path = None, m3u8_url = None\<rparr>,
         snd (download_try env sid ref c sub f h))) \<and>
   (Raised cl e \<in> set (drop (length h) (snd (download_stream_manifest env sid ref c sub f h))) \<longrightarrow>
      fst (download_stream_manifest env sid ref c sub f h) =
        \<lparr>success = False, message = ''Error: '' @ str_of e, file_path = None, m3u8_url = None\<rparr>)"
proof (intro conjI impI)
  assume "fst (download_try env sid ref c sub f h) = Inl e"
  then show "download_stream_manifest env sid ref c sub f h =
        (\<lparr>success = False, message = ''Error: '' @ str_of e, file_path = None, m3u8_url = None\<rparr>,
         snd (download_try env sid ref c sub f h))"
    unfolding download_stream_manifest_def by (auto split: prod.splits)
next
  assume "Raised cl e \<in> set (drop (length h) (snd (download_stream_manifest env sid ref c sub f h)))"
  then have "fst (download_try env sid ref c sub f h) = Inl e"
    using raised_event_is_the_exception download_events by metis
  then show "fst (download_stream_manifest env sid ref c sub f h) =
        \<lparr>success = False, message = ''Error: '' @ str_of e, file_path = None, m3u8_url = None\<rparr>"
    unfolding download_stream_manifest_def by (auto split: prod.splits)
qed

theorem exceptions_are_caught_witness:
  "download_stream_manifest example_env ''slow'' ''https://site.example/'' ''TR'' ''53'' ''rize'' [] =
     (\<lparr>success = False, message = ''Error: Read timed out'', file_path = None, m3u8_url = None\<rparr>,
      [Returned (MakeDirs ''TR/53/rize''), Returned CreateScraper,
       Raised (Get ''https://embed.galata.ai/embed/slow'' (embed_headers ''https://site.example/'') 30)
         (Exn ''Read timed out'')]) \<and>
   fst (download_stream_manifest example_env ''odd'' ''https://site.example/'' ''TR'' ''53'' ''rize'' []) =
     \<lparr>success = False, message = ''Error: Invalid IPv6 URL'', file_path = None, m3u8_url = None\<rparr> \<and>
   fst (download_stream_manifest full_disk_env ''abc'' ''https://site.example/'' ''TR'' ''53'' ''rize'' []) =
     \<lparr>success = False, message = ''Error: [Errno 28] No space left on device'', file_path = None,
      m3u8_url = None\<rparr>"
proof -
  have t1: "download_try example_env ''slow'' ''https://site.example/'' ''TR'' ''53'' ''rize'' [] =
      (Inl (Exn ''Read timed out''),
       [Returned (MakeDirs ''TR/53/rize''), Returned CreateScraper,
        Raised (Get ''https://embed.galata.ai/embed/slow'' (embed_headers ''https://site.example/'') 30)
          (Exn ''Read timed out'')])"
    by code_simp
  have a: "download_stream_manifest example_env ''slow'' ''https://site.example/'' ''TR'' ''53'' ''rize'' [] =
     (\<lparr>success = False, message = ''Error: Read timed out'', file_path = None, m3u8_url = None\<rparr>,
      [Returned (MakeDirs ''TR/53/rize''), Returned CreateScraper,
       Raised (Get ''https://embed.galata.ai/embed/slow'' (embed_headers ''https://site.example/'') 30)
         (Exn ''Read timed out'')])"
    using exceptions_are_caught [of example_env "''slow''" "''https://site.example/''" "''TR''" "''53''"
        "''rize''" "[]" "Exn ''Read timed out''"] t1
    by simp
  have t2: "fst (download_try example_env ''odd'' ''https://site.example/'' ''TR'' ''53'' ''rize'' []) =
      Inl (Exn ''Invalid IPv6 URL'')"
    by code_simp
  have b: "fst (download_stream_manifest example_env ''odd'' ''https://site.example/'' ''TR'' ''53'' ''rize'' []) =
     \<lparr>success = False, message = ''Error: Invalid IPv6 URL'', file_path = None, m3u8_url = None\<rparr>"
    using exceptions_are_caught [of example_env "''odd''" "''https://site.example/''" "''TR''" "''53''"
        "''rize''" "[]" "Exn ''Invalid IPv6 URL''"] t2
    by simp
  have t3: "Raised (WriteFile ''TR/53/rize/abc.m3u8''
                 (''#EXTM3U'' @ [LF] @ ''https://cdn.example/live/seg1.ts'' @ [LF]))
              (Exn ''[Errno 28] No space left on device'')
            \<in> set (drop (length ([] :: event list))
                 (snd (download_stream_manifest full_disk_env ''abc'' ''https://site.example/'' ''TR'' ''53'' ''rize'' [])))"
    by code_simp
  have c: "fst (download_stream_manifest full_disk_env ''abc'' ''https://site.example/'' ''TR'' ''53'' ''rize'' []) =
     \<lparr>success = False, message = ''Error: [Errno 28] No space left on device'', file_path = None,
      m3u8_url = None\<rparr>"
    using exceptions_are_caught [of full_disk_env "''abc''" "''https://site.example/''" "''TR''" "''53''"
        "''rize''" "[]" "Exn ''[Errno 28] No space left on device''"
        "WriteFile ''TR/53/rize/abc.m3u8'' (''#EXTM3U'' @ [LF] @ ''https://cdn.example/live/seg1.ts'' @ [LF])"] t3
    by simp
  show ?thesis using a b c by blast
qed


end
